theory Spec2Isabelle
  imports Main "HOL-Library.Word" "HOL-Library.Sublist"
begin

section \<open>cpp-readline: the Console class of src/Console.hpp and src/Console.cpp\<close>

text \<open>
  The development embeds the class \<^verbatim>\<open>CppReadline::Console\<close>: its command registry, the
  dispatcher \<^verbatim>\<open>executeCommand\<close>, the script runner \<^verbatim>\<open>executeFile\<close>, the
  hand-over of GNU readline's single history between consoles
  (\<^verbatim>\<open>saveState\<close>, \<^verbatim>\<open>reserveConsole\<close>) and the completion callbacks
  (\<^verbatim>\<open>getCommandCompletions\<close>, \<^verbatim>\<open>commandIterator\<close>).

  Conventions.
  \<^item> A \<^verbatim>\<open>std::string\<close> is a \<open>string\<close> (a list of 8-bit characters).
  \<^item> \<^verbatim>\<open>unsigned\<close> is a 32-bit word and \<^verbatim>\<open>int\<close> its two's complement reading;
    return codes are given as mathematical integers in the range of \<^verbatim>\<open>int\<close>.
  \<^item> \<^verbatim>\<open>std::cout\<close> is a string that grows at its end.
  \<^item> A console object lives at an address (a natural number) of a store; a pointer that
    may be null is an \<open>option\<close>.
  \<^item> What C++ leaves undefined (a method call through a null or dangling pointer, the use
    of an iterator that was never set, a write past the end of an array) is a \<open>fault\<close>
    value.
\<close>

subsection \<open>Return codes and the handler type (Console.hpp)\<close>

text \<open>\<^verbatim>\<open>enum ReturnCode { Quit = -1, Ok = 0, Error = 1 }\<close>.\<close>

definition Quit :: int where
  "Quit = - 1"

definition Ok :: int where
  "Ok = 0"

definition Error :: int where
  "Error = 1"

text \<open>
  \<^verbatim>\<open>static_cast<int>(unsigned)\<close> in \<^verbatim>\<open>executeCommand\<close>, and the conversion of an
  \<^verbatim>\<open>int\<close> to \<^verbatim>\<open>unsigned\<close> that \<^verbatim>\<open>std::function<unsigned(...)>\<close> applies to the
  result of a callable that returns \<^verbatim>\<open>int\<close> (the two built-in lambdas).
\<close>

definition static_cast_int :: "32 word \<Rightarrow> int" where
  "static_cast_int r = sint r"

definition to_unsigned :: "int \<Rightarrow> 32 word" where
  "to_unsigned i = word_of_int i"

text \<open>
  \<^verbatim>\<open>using CommandFunction = std::function<unsigned(const std::vector<std::string> &)>\<close>.
  Four kinds of value are stored in a registry: the empty function \<^verbatim>\<open>{}\<close> (calling it
  throws \<^verbatim>\<open>std::bad_function_call\<close>), the two lambdas of the constructor, which capture
  \<^verbatim>\<open>this\<close>, and a function of the embedding application. The latter works on a state
  \<open>'u\<close> of its own; it does not reach back into the console.
\<close>

datatype 'u CommandFunction =
    EmptyFunction
  | HelpLambda
  | RunLambda
  | UserFunction "string list \<Rightarrow> 'u \<Rightarrow> 32 word \<times> 'u"

subsection \<open>The line-editing engine's history (GNU readline, not part of the repository)\<close>

text \<open>
  Modelled from the spec: the engine's history, which is not under src/. The spec has it
  as "the ordered log of previously entered lines maintained by the line-editing engine"
  and a snapshot as an "opaque value representing the engine's captured history state".
  The engine keeps one list of entries. \<^verbatim>\<open>add_history\<close> creates a new entry object for
  a line and appends it; an entry is identified by its serial number (standing for the
  address of the \<^verbatim>\<open>HIST_ENTRY\<close>), so two entries that hold the same line are still two
  entries. A \<^verbatim>\<open>HISTORY_STATE\<close> is the captured list.
\<close>

type_synonym hist_entry = "nat \<times> string"

type_synonym HISTORY_STATE = "hist_entry list"

subsection \<open>The class and the process-wide state\<close>

text \<open>
  The private members \<^verbatim>\<open>greeting_\<close>, \<^verbatim>\<open>commands_\<close> and \<^verbatim>\<open>history_\<close> (a name of
  Isabelle cannot end with an underscore, so the fields drop it). The registry
  \<^verbatim>\<open>std::unordered_map<std::string, CommandFunction>\<close> is a list of entries with
  distinct keys, in the order in which the map iterates. C++ does not specify that order;
  no theorem of a claim depends on which one it is (the witnesses print in the order of
  the model).
\<close>

record 'u Console =
  greeting :: string
  commands :: "(string \<times> 'u CommandFunction) list"
  history :: "HISTORY_STATE option"

text \<open>
  The static members \<^verbatim>\<open>currentConsole_\<close> and \<^verbatim>\<open>emptyHistory_\<close>, the function-local
  static iterator \<^verbatim>\<open>it\<close> of \<^verbatim>\<open>commandIterator\<close> (field \<open>iter\<close>: the entries not yet visited;
  \<open>None\<close> before its first assignment), the store of live console objects, and the
  engine's globals: its history and the serial number of the next entry.
\<close>

record 'u world =
  consoles :: "nat \<rightharpoonup> 'u Console"
  currentConsole :: "nat option"
  emptyHistory :: HISTORY_STATE
  iter :: "(string \<times> 'u CommandFunction) list option"
  the_history :: HISTORY_STATE
  next_entry :: nat

datatype fault = NullConsole | DanglingConsole | SingularIterator | BufferOverflow

text \<open>
  Modelled from the spec: the engine's three history functions the class calls. The first
  captures the history, the second installs a captured one, the third appends a new entry
  for a line.
\<close>

definition history_get_history_state :: "'u world \<Rightarrow> HISTORY_STATE" where
  "history_get_history_state w = the_history w"

definition history_set_history_state :: "HISTORY_STATE \<Rightarrow> 'u world \<Rightarrow> 'u world" where
  "history_set_history_state h w = w\<lparr>the_history := h\<rparr>"

definition add_history :: "string \<Rightarrow> 'u world \<Rightarrow> 'u world" where
  "add_history line w =
     w\<lparr>the_history := the_history w @ [(next_entry w, line)], next_entry := Suc (next_entry w)\<rparr>"

text \<open>
  The state of the process before \<^verbatim>\<open>main\<close>: the static initialisers have run,
  \<^verbatim>\<open>emptyHistory_\<close> holds the state captured from the untouched engine.
\<close>

definition initial_world :: "'u world" where
  "initial_world =
     \<lparr>consoles = Map.empty, currentConsole = None, emptyHistory = [], iter = None,
      the_history = [], next_entry = 0\<rparr>"

subsection \<open>Construction, destruction, registration\<close>

text \<open>\<^verbatim>\<open>commands_[s] = f\<close>: overwrite the entry of an existing key where it stands, add a new key.\<close>

fun assign :: "string \<Rightarrow> 'f \<Rightarrow> (string \<times> 'f) list \<Rightarrow> (string \<times> 'f) list" where
  "assign s f [] = [(s, f)]"
| "assign s f ((k, g) # rest) = (if k = s then (s, f) # rest else (k, g) # assign s f rest)"

text \<open>
  The constructor: \<^verbatim>\<open>commands_({ {"quit",{}}, {"exit",{}} })\<close>, \<^verbatim>\<open>history_(nullptr)\<close>,
  then the two assignments of the body.
\<close>

definition new_Console :: "string \<Rightarrow> 'u Console" where
  "new_Console g =
     \<lparr>greeting = g,
      commands = assign ''run'' RunLambda (assign ''help'' HelpLambda
                    [(''quit'', EmptyFunction), (''exit'', EmptyFunction)]),
      history = None\<rparr>"

text \<open>
  A console is constructed at an address. (The constructor also installs
  \<^verbatim>\<open>getCommandCompletions\<close> as the engine's completion function; the engine's variable
  is not part of the state.) The destructor frees the snapshot and nothing else: it
  leaves \<^verbatim>\<open>currentConsole_\<close> as it is.
\<close>

definition construct :: "nat \<Rightarrow> string \<Rightarrow> 'u world \<Rightarrow> 'u world" where
  "construct a g w = w\<lparr>consoles := (consoles w)(a \<mapsto> new_Console g)\<rparr>"

definition destroy :: "nat \<Rightarrow> 'u world \<Rightarrow> 'u world" where
  "destroy a w = w\<lparr>consoles := (consoles w)(a := None)\<rparr>"

definition registerCommand :: "string \<Rightarrow> 'u CommandFunction \<Rightarrow> 'u Console \<Rightarrow> 'u Console" where
  "registerCommand s f this = this\<lparr>commands := assign s f (commands this)\<rparr>"

definition getRegisteredCommands :: "'u Console \<Rightarrow> string list" where
  "getRegisteredCommands this = map fst (commands this)"

subsection \<open>saveState and reserveConsole\<close>

definition saveState :: "nat \<Rightarrow> 'u world \<Rightarrow> fault + 'u world" where
  "saveState this w =
     (case consoles w this of
        None \<Rightarrow> Inl DanglingConsole
      | Some c \<Rightarrow>
          Inr (w\<lparr>consoles := (consoles w)(this \<mapsto> c\<lparr>history := Some (history_get_history_state w)\<rparr>)\<rparr>))"

definition reserveConsole :: "nat \<Rightarrow> 'u world \<Rightarrow> fault + 'u world" where
  "reserveConsole this w =
     (case consoles w this of
        None \<Rightarrow> Inl DanglingConsole
      | Some c \<Rightarrow>
          if currentConsole w = Some this then Inr w
          else
            (case (case currentConsole w of None \<Rightarrow> Inr w | Some a \<Rightarrow> saveState a w) of
               Inl e \<Rightarrow> Inl e
             | Inr w1 \<Rightarrow>
                 let w2 = (case history c of
                             None \<Rightarrow> history_set_history_state (emptyHistory w1) w1
                           | Some h \<Rightarrow> history_set_history_state h w1)
                 in Inr (w2\<lparr>currentConsole := Some this\<rparr>)))"

subsection \<open>Strings: tokens, lines, search, decimal numbers\<close>

text \<open>
  \<^verbatim>\<open>std::isspace\<close> in the classic locale, which \<^verbatim>\<open>operator>>\<close> uses to delimit a
  word: space, \<^verbatim>\<open>\t\<close>, \<^verbatim>\<open>\n\<close>, \<^verbatim>\<open>\v\<close>, \<^verbatim>\<open>\f\<close>, \<^verbatim>\<open>\r\<close>.
\<close>

definition isspace :: "char \<Rightarrow> bool" where
  "isspace c = (c = CHR '' '' \<or> c = CHR 0x09 \<or> c = CHR 0x0A \<or> c = CHR 0x0B \<or> c = CHR 0x0C \<or> c = CHR 0x0D)"

text \<open>
  The copy of \<^verbatim>\<open>std::istream_iterator<std::string>\<close> into \<^verbatim>\<open>inputs\<close>: the words of
  the line, in order. \<open>split_words cur rest\<close> holds the word being read in \<open>cur\<close>.
\<close>

fun split_words :: "string \<Rightarrow> string \<Rightarrow> string list" where
  "split_words cur [] = (if cur = [] then [] else [cur])"
| "split_words cur (c # cs) =
     (if isspace c then (if cur = [] then split_words [] cs else cur # split_words [] cs)
      else split_words (cur @ [c]) cs)"

definition tokenize :: "string \<Rightarrow> string list" where
  "tokenize command = split_words [] command"

text \<open>
  The lines \<^verbatim>\<open>std::getline\<close> delivers from a file's content until it fails: each ends
  at a \<^verbatim>\<open>\n\<close>, which is dropped; characters after the last \<^verbatim>\<open>\n\<close> are a last line.
\<close>

fun split_lines :: "string \<Rightarrow> string \<Rightarrow> string list" where
  "split_lines cur [] = (if cur = [] then [] else [cur])"
| "split_lines cur (c # cs) =
     (if c = CHR 0x0A then cur # split_lines [] cs else split_lines (cur @ [c]) cs)"

definition getlines :: "string \<Rightarrow> string list" where
  "getlines content = split_lines [] content"

text \<open>
  \<^verbatim>\<open>std::string::operator[]\<close>: the character at \<open>pos\<close>; at \<open>pos = size()\<close> a reference
  to the null character (C++11); beyond that the behaviour is undefined.
\<close>

definition string_at :: "string \<Rightarrow> nat \<Rightarrow> char option" where
  "string_at s pos =
     (if pos < length s then Some (s ! pos) else if pos = length s then Some (CHR 0x00) else None)"

text \<open>\<^verbatim>\<open>std::string::find\<close>: the first position at which \<open>t\<close> occurs in \<open>s\<close>; \<open>None\<close> is \<^verbatim>\<open>npos\<close>.\<close>

fun starts_with :: "string \<Rightarrow> string \<Rightarrow> bool" where
  "starts_with s [] = True"
| "starts_with [] (c # t) = False"
| "starts_with (d # s) (c # t) = (d = c \<and> starts_with s t)"

fun find_string :: "string \<Rightarrow> string \<Rightarrow> nat option" where
  "find_string [] t = (if t = [] then Some 0 else None)"
| "find_string (c # s) t =
     (if starts_with (c # s) t then Some 0 else map_option Suc (find_string s t))"

text \<open>\<^verbatim>\<open>operator<<\<close> for the line counter of \<^verbatim>\<open>executeFile\<close>, which counts up from 0.\<close>

fun decimal :: "nat \<Rightarrow> string" where
  "decimal n =
     (if n < 10 then [''0123456789'' ! n] else decimal (n div 10) @ [''0123456789'' ! (n mod 10)])"

subsection \<open>executeCommand and executeFile\<close>

text \<open>
  What a command reads and writes besides the console: the output stream, the state of
  the application's handlers, and a log of the calls of \<^verbatim>\<open>std::string::operator[]\<close>
  (the string and the position of each call, in order). The log is an observation of the
  run; nothing reads it.
\<close>

record 'u exec_state =
  cout :: string
  user :: 'u
  subscripts :: "(string \<times> nat) list"

text \<open>
  A call returns its \<^verbatim>\<open>int\<close>, or leaves by \<^verbatim>\<open>std::bad_function_call\<close>, or does not
  come back: a script that runs itself nests calls without end. The functions take the
  number of nested \<^verbatim>\<open>run\<close> commands they may follow; \<open>Diverge\<close> is the answer
  when that number is used up.
\<close>

datatype 'u result = Return int "'u exec_state" | Throw "'u exec_state" | Diverge

text \<open>
  The entry a call \<^verbatim>\<open>command[pos]\<close> leaves in the log, and the line
  \<^verbatim>\<open>std::cout << "[" << counter << "] " << command << '\n'\<close> of \<^verbatim>\<open>executeFile\<close>.
\<close>

definition logged :: "string \<Rightarrow> nat \<Rightarrow> 'u exec_state \<Rightarrow> 'u exec_state" where
  "logged command pos s = s\<lparr>subscripts := subscripts s @ [(command, pos)]\<rparr>"

definition report :: "nat \<Rightarrow> string \<Rightarrow> 'u exec_state \<Rightarrow> 'u exec_state" where
  "report counter command s =
     s\<lparr>cout := cout s @ ''['' @ decimal counter @ ''] '' @ command @ [CHR 0x0A]\<rparr>"

text \<open>The files the process can open, by path, with their content.\<close>

type_synonym filesystem = "string \<rightharpoonup> string"

fun executeCommand :: "nat \<Rightarrow> filesystem \<Rightarrow> 'u Console \<Rightarrow> string \<Rightarrow> 'u exec_state \<Rightarrow> 'u result"
  and executeFile :: "nat \<Rightarrow> filesystem \<Rightarrow> 'u Console \<Rightarrow> string \<Rightarrow> 'u exec_state \<Rightarrow> 'u result"
  and executeFile_loop ::
    "nat \<Rightarrow> filesystem \<Rightarrow> 'u Console \<Rightarrow> string list \<Rightarrow> nat \<Rightarrow> 'u exec_state \<Rightarrow> 'u result"
where
  "executeCommand fuel fs this command s =
     (let inputs = tokenize command in
      if length inputs = 0 then Return Ok s
      else if inputs ! 0 = ''quit'' \<or> inputs ! 0 = ''exit'' then Return Quit s
      else
        (case map_of (commands this) (inputs ! 0) of
           Some EmptyFunction \<Rightarrow> Throw s
         | Some HelpLambda \<Rightarrow>
             Return (static_cast_int (to_unsigned 0))
               (s\<lparr>cout := cout s @ ''Available commands are:'' @ [CHR 0x0A]
                       @ concat (map (\<lambda>command. [CHR 0x09] @ command @ [CHR 0x0A])
                           (getRegisteredCommands this))\<rparr>)
         | Some RunLambda \<Rightarrow>
             if length inputs < 2
             then Return (static_cast_int (to_unsigned 1))
                    (s\<lparr>cout := cout s @ ''Usage: '' @ inputs ! 0 @ '' script_filename'' @ [CHR 0x0A]\<rparr>)
             else if fuel = 0 then Diverge
             else
               (case executeFile (fuel - 1) fs this (inputs ! 1) s of
                  Return r s' \<Rightarrow> Return (static_cast_int (to_unsigned r)) s'
                | Throw s' \<Rightarrow> Throw s'
                | Diverge \<Rightarrow> Diverge)
         | Some (UserFunction f) \<Rightarrow>
             (case f inputs (user s) of (r, u) \<Rightarrow> Return (static_cast_int r) (s\<lparr>user := u\<rparr>))
         | None \<Rightarrow>
             Return Error
               (s\<lparr>cout := cout s @ ''Command '' @ [CHR 0x27] @ inputs ! 0 @ [CHR 0x27]
                       @ '' not found.'' @ [CHR 0x0A]\<rparr>)))"
| "executeFile fuel fs this filename s =
     (case fs filename of
        None \<Rightarrow>
          Return Error
            (s\<lparr>cout := cout s @ ''Could not find the specified file to execute.'' @ [CHR 0x0A]\<rparr>)
      | Some content \<Rightarrow> executeFile_loop fuel fs this (getlines content) 0 s)"
| "executeFile_loop fuel fs this [] counter s = Return Ok s"
| "executeFile_loop fuel fs this (command # rest) counter s =
     (let s0 = logged command 0 s in
      if string_at command 0 = Some CHR ''#'' then executeFile_loop fuel fs this rest counter s0
      else
        (case executeCommand fuel fs this command (report counter command s0) of
           Return result s1 \<Rightarrow>
             if result \<noteq> 0 then Return result s1
             else executeFile_loop fuel fs this rest (counter + 1) (s1\<lparr>cout := cout s1 @ [CHR 0x0A]\<rparr>)
         | Throw s1 \<Rightarrow> Throw s1
         | Diverge \<Rightarrow> Diverge))"

subsection \<open>readLine\<close>

text \<open>
  \<open>buffer\<close> is what the engine's \<^verbatim>\<open>readline(greeting_.c_str())\<close> returns: \<open>None\<close> for
  \<^verbatim>\<open>nullptr\<close> at the end of the input, else the line typed. The test
  \<^verbatim>\<open>buffer[0] != '\0'\<close> on the C string is the test that the line is not empty.
\<close>

definition readLine ::
  "nat \<Rightarrow> string option \<Rightarrow> nat \<Rightarrow> filesystem \<Rightarrow> 'u world \<Rightarrow> 'u exec_state
     \<Rightarrow> fault + ('u result \<times> 'u world)" where
  "readLine this buffer fuel fs w s =
     (case reserveConsole this w of
        Inl e \<Rightarrow> Inl e
      | Inr w1 \<Rightarrow>
          (case buffer of
             None \<Rightarrow> Inr (Return Quit (s\<lparr>cout := cout s @ [CHR 0x0A]\<rparr>), w1)
           | Some line \<Rightarrow>
               (let w2 = (if line \<noteq> [] then add_history line w1 else w1) in
                case consoles w2 this of
                  None \<Rightarrow> Inl DanglingConsole
                | Some c \<Rightarrow> Inr (executeCommand fuel fs c line s, w2))))"

subsection \<open>Completion: commandIterator and getCommandCompletions\<close>

text \<open>
  \<^verbatim>\<open>strcpy(completion, command.c_str())\<close> into an array of \<open>n\<close> bytes: \<^verbatim>\<open>strcpy\<close>
  copies the characters of the C string, which are those before the first null character,
  and then the terminating null character, one byte more than the characters it copies.
  A copy that does not fit writes past the end of the array.
\<close>

definition strcpy :: "nat \<Rightarrow> string \<Rightarrow> fault + string" where
  "strcpy n src =
     (let c_str = takeWhile (\<lambda>c. c \<noteq> CHR 0x00) src in
      if length c_str + 1 \<le> n then Inr c_str else Inl BufferOverflow)"

text \<open>
  The \<^verbatim>\<open>while\<close> loop of \<^verbatim>\<open>commandIterator\<close> on the entries not yet visited: it
  steps past an entry before it tests it, and stops at the first key in which \<open>text\<close>
  occurs. There it allocates \<^verbatim>\<open>new char[command.size()]\<close>, as many bytes as the key has
  characters, and copies the key into it with \<^verbatim>\<open>strcpy\<close>. The result is the copy
  (\<open>None\<close> for \<^verbatim>\<open>nullptr\<close>, when no key is left) and the new position.
\<close>

fun commandIterator_loop ::
  "string \<Rightarrow> (string \<times> 'f) list \<Rightarrow> fault + (string option \<times> (string \<times> 'f) list)" where
  "commandIterator_loop text [] = Inr (None, [])"
| "commandIterator_loop text ((command, f) # rest) =
     (if find_string command text \<noteq> None
      then (case strcpy (length command) command of
              Inl e \<Rightarrow> Inl e
            | Inr completion \<Rightarrow> Inr (Some completion, rest))
      else commandIterator_loop text rest)"

definition commandIterator :: "string \<Rightarrow> int \<Rightarrow> 'u world \<Rightarrow> fault + (string option \<times> 'u world)" where
  "commandIterator text state w =
     (case currentConsole w of
        None \<Rightarrow> Inl NullConsole
      | Some a \<Rightarrow>
          (case consoles w a of
             None \<Rightarrow> Inl DanglingConsole
           | Some c \<Rightarrow>
               (case (if state = 0 then Some (commands c) else iter w) of
                  None \<Rightarrow> Inl SingularIterator
                | Some cur \<Rightarrow>
                    (case commandIterator_loop text cur of
                       Inl e \<Rightarrow> Inl e
                     | Inr (completion, cur') \<Rightarrow> Inr (completion, w\<lparr>iter := Some cur'\<rparr>)))))"

text \<open>
  Modelled from the spec: the engine's \<^verbatim>\<open>rl_completion_matches(text, generator)\<close> (GNU
  readline, not under src/), the "incremental completion-query protocol" in which "a
  fresh query (state = 0) restarts iteration from the beginning; subsequent queries
  continue from the last visited position", ended by a sentinel. It calls the generator
  with \<open>state = 0, 1, 2, ...\<close> until it answers \<^verbatim>\<open>nullptr\<close> and returns the answers, or
  \<^verbatim>\<open>nullptr\<close> when there is none. (The engine puts the longest common prefix of the
  answers in front of them; that slot is left out.)
\<close>

function rl_generate :: "string \<Rightarrow> nat \<Rightarrow> 'u world \<Rightarrow> fault + (string list \<times> 'u world)" where
  "rl_generate text state w =
     (case commandIterator text (int state) w of
        Inl e \<Rightarrow> Inl e
      | Inr (None, w') \<Rightarrow> Inr ([], w')
      | Inr (Some m, w') \<Rightarrow>
          (case rl_generate text (Suc state) w' of
             Inl e \<Rightarrow> Inl e
           | Inr (ms, w'') \<Rightarrow> Inr (m # ms, w'')))"
  by pat_completeness auto

termination rl_generate
proof -
  have shrinks: "commandIterator_loop t cur = Inr (Some k, cur') \<Longrightarrow> length cur' < length cur"
    for t k and cur cur' :: "(string \<times> 'f) list"
    by (induction t cur rule: commandIterator_loop.induct) (auto split: if_splits sum.splits)
  show ?thesis
    by (relation "measure (\<lambda>(t, state, w).
          if state = 0
          then Suc (case currentConsole w of
                      None \<Rightarrow> 0
                    | Some a \<Rightarrow> (case consoles w a of None \<Rightarrow> 0 | Some c \<Rightarrow> length (commands c)))
          else (case iter w of None \<Rightarrow> 0 | Some cur \<Rightarrow> length cur))")
       (auto simp: commandIterator_def split: option.splits if_splits prod.splits sum.splits
          dest!: shrinks)
qed

definition rl_completion_matches :: "string \<Rightarrow> 'u world \<Rightarrow> fault + (string list option \<times> 'u world)" where
  "rl_completion_matches text w =
     (case rl_generate text 0 w of
        Inl e \<Rightarrow> Inl e
      | Inr (ms, w') \<Rightarrow> Inr (if ms = [] then None else Some ms, w'))"

text \<open>
  \<^verbatim>\<open>getCommandCompletions(text, start, end)\<close>: \<open>completionList\<close> stays \<^verbatim>\<open>nullptr\<close>
  unless \<open>start = 0\<close>. The third parameter has no name in the source and is not used.
\<close>

definition getCommandCompletions ::
  "string \<Rightarrow> int \<Rightarrow> int \<Rightarrow> 'u world \<Rightarrow> fault + (string list option \<times> 'u world)" where
  "getCommandCompletions text start e w =
     (if start = 0 then rl_completion_matches text w else Inr (None, w))"

text \<open>The lines of a script that are not comments: the ones \<^verbatim>\<open>executeFile\<close> counts.\<close>

definition commands_of :: "string list \<Rightarrow> string list" where
  "commands_of lines = filter (\<lambda>command. string_at command 0 \<noteq> Some CHR ''#'') lines"

subsection \<open>Entries and their serial numbers\<close>

text \<open>
  Every entry that the engine, the sentinel or a snapshot of a live console holds was
  created before: its serial number is below the next one. The initial state has the
  property and every operation keeps it (lemmas \<open>entries_allocated_*\<close> below).
\<close>

definition entries_allocated :: "'u world \<Rightarrow> bool" where
  "entries_allocated w =
     ((\<forall>e \<in> set (the_history w). fst e < next_entry w)
      \<and> (\<forall>e \<in> set (emptyHistory w). fst e < next_entry w)
      \<and> (\<forall>a c h. consoles w a = Some c \<longrightarrow> history c = Some h \<longrightarrow>
            (\<forall>e \<in> set h. fst e < next_entry w)))"

section \<open>Properties\<close>

declare executeCommand.simps [simp del] executeFile.simps [simp del] rl_generate.simps [simp del]

declare decimal.simps [simp del]

subsection \<open>The registry\<close>

lemma map_of_assign: "map_of (assign k v cs) = (map_of cs)(k \<mapsto> v)"
  by (induction k v cs rule: assign.induct) auto

lemma set_fst_assign: "fst ` set (assign k v cs) = insert k (fst ` set cs)"
  by (induction k v cs rule: assign.induct) auto

lemma distinct_assign: "distinct (map fst cs) \<Longrightarrow> distinct (map fst (assign k v cs))"
proof (induction k v cs rule: assign.induct)
  case (1 s f)
  then show ?case by simp
next
  case (2 s f k g rest)
  then show ?case
    using set_fst_assign [of s f rest] by auto
qed

lemma distinct_new_Console: "distinct (getRegisteredCommands (new_Console g))"
  by (simp add: getRegisteredCommands_def new_Console_def)

lemma distinct_registerCommand:
  "distinct (getRegisteredCommands this) \<Longrightarrow> distinct (getRegisteredCommands (registerCommand k f this))"
  by (simp add: getRegisteredCommands_def registerCommand_def distinct_assign)

subsection \<open>The dispatcher\<close>

text \<open>
  Claim C3. When the first word of the line is \<open>quit\<close> or \<open>exit\<close>, \<open>executeCommand\<close>
  returns \<open>Quit\<close>, which is \<open>-1\<close>, whatever the registry holds, and leaves the output
  and the state of the handlers as they were: no handler ran. This is so in particular
  after a handler \<open>f\<close> has been registered under that very name, where the lookup would
  find \<open>f\<close>.
\<close>

theorem quit_exit_intercepted:
  "tokenize line = tok # rest \<Longrightarrow> tok = ''quit'' \<or> tok = ''exit'' \<Longrightarrow>
     executeCommand fuel fs this line s = Return Quit s
     \<and> Quit = - 1
     \<and> map_of (commands (registerCommand tok f this)) tok = Some f
     \<and> executeCommand fuel fs (registerCommand tok f this) line s = Return Quit s"
  by (auto simp: executeCommand.simps registerCommand_def map_of_assign Quit_def)

theorem quit_exit_intercepted_witness:
  "tokenize ''quit now'' = [''quit'', ''now'']
   \<and> executeCommand 0 Map.empty
        (registerCommand ''quit'' (UserFunction (\<lambda>toks n. (7, Suc n))) (new_Console ''> ''))
        ''quit now'' \<lparr>cout = [], user = 0::nat, subscripts = []\<rparr>
      = Return (- 1) \<lparr>cout = [], user = 0, subscripts = []\<rparr>"
proof -
  have t: "tokenize ''quit now'' = ''quit'' # [''now'']"
    by (simp add: tokenize_def isspace_def)
  from quit_exit_intercepted [OF t, of 0 Map.empty "new_Console ''> ''" _ "UserFunction (\<lambda>toks n. (7, Suc n))"] t
  show ?thesis
    by (simp add: Quit_def)
qed

text \<open>
  Claim C8. A line without a word (the empty line is one) returns \<open>Ok\<close>, which is \<open>0\<close>,
  and changes nothing. A line whose first word is not \<open>quit\<close> or \<open>exit\<close> and is no key
  of the registry returns \<open>Error\<close>, which is at least \<open>1\<close>, and the only effect is the
  message \<^verbatim>\<open>Command '<word>' not found.\<close> on the output.
\<close>

theorem empty_and_unknown:
  "(tokenize line = [] \<longrightarrow> executeCommand fuel fs this line s = Return Ok s)
   \<and> tokenize [] = []
   \<and> (tokenize line = tok # rest \<and> tok \<noteq> ''quit'' \<and> tok \<noteq> ''exit''
        \<and> map_of (commands this) tok = None \<longrightarrow>
      executeCommand fuel fs this line s =
        Return Error
          (s\<lparr>cout := cout s @ ''Command '' @ [CHR 0x27] @ tok @ [CHR 0x27] @ '' not found.'' @ [CHR 0x0A]\<rparr>))
   \<and> Ok = 0 \<and> Error \<ge> 1"
  by (auto simp: executeCommand.simps tokenize_def Ok_def Error_def)

theorem empty_and_unknown_witness:
  "tokenize ''bogus'' = [''bogus'']
   \<and> map_of (commands (new_Console ''> '' :: unit Console)) ''bogus'' = None
   \<and> executeCommand 0 Map.empty (new_Console ''> '') ''bogus'' \<lparr>cout = [], user = (), subscripts = []\<rparr>
       = Return 1 \<lparr>cout = ''Command '' @ [CHR 0x27] @ ''bogus'' @ [CHR 0x27] @ '' not found.'' @ [CHR 0x0A],
                    user = (), subscripts = []\<rparr>
   \<and> tokenize ''   '' = []
   \<and> executeCommand 0 Map.empty (new_Console ''> '') ''   '' \<lparr>cout = [], user = (), subscripts = []\<rparr>
       = Return 0 \<lparr>cout = [], user = (), subscripts = []\<rparr>"
proof -
  have t: "tokenize ''bogus'' = [''bogus'']" and e: "tokenize ''   '' = []"
    by (simp_all add: tokenize_def isspace_def)
  have m: "map_of (commands (new_Console ''> '' :: unit Console)) ''bogus'' = None"
    by (simp add: new_Console_def)
  from empty_and_unknown [of "''bogus''" 0 Map.empty "new_Console ''> ''"
         "\<lparr>cout = [], user = (), subscripts = []\<rparr>" "''bogus''" "[]"]
       empty_and_unknown [of "''   ''" 0 Map.empty "new_Console ''> ''"
         "\<lparr>cout = [], user = (), subscripts = []\<rparr>" "''x''" "[]"] t e m
  show ?thesis
    by (simp add: Ok_def Error_def)
qed



text \<open>
  Claim C6. The claim fails on the code: the handler type returns \<^verbatim>\<open>unsigned\<close>, and
  the cast to \<^verbatim>\<open>int\<close> maps the largest value, \<open>4294967295\<close>, to \<open>-1\<close>. A handler
  registered under \<open>foo\<close> that returns this value makes \<open>executeCommand\<close> return
  \<open>Quit\<close>; it is the only value of a handler that does.
\<close>

theorem handler_can_return_quit:
  "executeCommand fuel fs
     (registerCommand ''foo'' (UserFunction (\<lambda>toks u. (4294967295, u))) (new_Console g))
     ''foo'' s = Return Quit s
   \<and> (\<forall>r. (static_cast_int r = Quit) = (r = 4294967295))"
proof -
  have t: "tokenize ''foo'' = [''foo'']"
    by (simp add: tokenize_def isspace_def)
  have m: "(4294967295 :: 32 word) = - 1"
    by simp
  have "(static_cast_int r = Quit) = (r = 4294967295)" for r
  proof -
    have "(r = - 1) = (sint r = sint (- 1 :: 32 word))"
      by (rule word_eq_iff_signed)
    then have "(sint r = - 1) = (r = - 1)"
      by simp
    then show ?thesis
      by (simp only: static_cast_int_def Quit_def m)
  qed
  then show ?thesis
    using t by (simp add: executeCommand.simps registerCommand_def map_of_assign static_cast_int_def Quit_def)
qed

subsection \<open>The script runner\<close>

text \<open>
  The loop on a script cut in two: it runs the first part and, when that part has been
  read to its end, goes on with the second, the counter advanced by the number of lines
  of the first part that are not comments.
\<close>

lemma executeFile_loop_append:
  "executeFile_loop fuel fs this (pre @ post) counter s =
     (case executeFile_loop fuel fs this pre counter s of
        Return r s1 \<Rightarrow>
          if r = 0
          then executeFile_loop fuel fs this post (counter + length (commands_of pre)) s1
          else Return r s1
      | Throw s1 \<Rightarrow> Throw s1
      | Diverge \<Rightarrow> Diverge)"
proof (induction pre arbitrary: counter s)
  case Nil
  then show ?case by (simp add: Ok_def commands_of_def)
next
  case (Cons command pre)
  show ?case
  proof (cases "string_at command 0 = Some CHR ''#''")
    case True
    have "executeFile_loop fuel fs this ((command # pre) @ post) counter s =
          executeFile_loop fuel fs this (pre @ post) counter (logged command 0 s)"
      using True by simp
    moreover have "executeFile_loop fuel fs this (command # pre) counter s =
          executeFile_loop fuel fs this pre counter (logged command 0 s)"
      using True by simp
    moreover have "commands_of (command # pre) = commands_of pre"
      using True by (simp add: commands_of_def)
    ultimately show ?thesis
      by (simp only: Cons.IH)
  next
    case False
    have count: "length (commands_of (command # pre)) = Suc (length (commands_of pre))"
      using False by (simp add: commands_of_def)
    show ?thesis
    proof (cases "executeCommand fuel fs this command (report counter command (logged command 0 s))")
      case (Return r s1)
      show ?thesis
      proof (cases "r = 0")
        case True
        have "executeFile_loop fuel fs this ((command # pre) @ post) counter s =
              executeFile_loop fuel fs this (pre @ post) (counter + 1) (s1\<lparr>cout := cout s1 @ [CHR 0x0A]\<rparr>)"
          using False Return True by simp
        moreover have "executeFile_loop fuel fs this (command # pre) counter s =
              executeFile_loop fuel fs this pre (counter + 1) (s1\<lparr>cout := cout s1 @ [CHR 0x0A]\<rparr>)"
          using False Return True by simp
        ultimately show ?thesis
          by (simp only: Cons.IH count add_Suc_right add_Suc One_nat_def add_0_right)
      next
        case nz: False
        with False Return show ?thesis by simp
      qed
    next
      case (Throw s1)
      with False show ?thesis by simp
    next
      case Diverge
      with False show ?thesis by simp
    qed
  qed
qed

lemma executeFile_loop_stop:
  assumes "executeFile_loop fuel fs this pre counter s = Return Ok s1"
    and "string_at command 0 \<noteq> Some CHR ''#''"
    and "executeCommand fuel fs this command
           (report (counter + length (commands_of pre)) command (logged command 0 s1)) = Return r s2"
    and "r \<noteq> 0"
  shows "executeFile_loop fuel fs this (pre @ command # post) counter s = Return r s2"
  using assms by (simp add: executeFile_loop_append Ok_def)

text \<open>
  A run of the loop, line by line. The list \<open>ss\<close> gives the state in which each of the
  first \<open>k\<close> lines is reached and the state after the last of them. Line \<open>i\<close> leaves
  \<open>ss ! i\<close> for \<open>ss ! Suc i\<close> in one of two ways: a comment only has its first
  character read; any other line is reported under its sequence number (the number of
  lines before it that are not comments) and passed to \<open>executeCommand\<close>, which returns
  \<open>0\<close>, and a line feed is written. After such a run the loop has read the first \<open>k\<close>
  lines and is in the state \<open>ss ! k\<close>.
\<close>

lemma executeFile_loop_run:
  assumes "k \<le> length lines"
    and start: "ss ! 0 = s"
    and "\<forall>i<k. if string_at (lines ! i) 0 = Some CHR ''#''
                then ss ! Suc i = logged (lines ! i) 0 (ss ! i)
                else \<exists>s1. executeCommand fuel fs this (lines ! i)
                             (report (length (commands_of (take i lines))) (lines ! i)
                                (logged (lines ! i) 0 (ss ! i))) = Return 0 s1
                          \<and> ss ! Suc i = s1\<lparr>cout := cout s1 @ [CHR 0x0A]\<rparr>"
  shows "executeFile_loop fuel fs this (take k lines) 0 s = Return Ok (ss ! k)"
  using assms(1,3)
proof (induction k)
  case 0
  with start show ?case by simp
next
  case (Suc k)
  then have pre: "executeFile_loop fuel fs this (take k lines) 0 s = Return Ok (ss ! k)"
    by simp
  from Suc.prems have snoc: "take (Suc k) lines = take k lines @ [lines ! k]"
    by (simp add: take_Suc_conv_app_nth)
  from Suc.prems have step:
    "if string_at (lines ! k) 0 = Some CHR ''#''
     then ss ! Suc k = logged (lines ! k) 0 (ss ! k)
     else \<exists>s1. executeCommand fuel fs this (lines ! k)
                  (report (length (commands_of (take k lines))) (lines ! k)
                     (logged (lines ! k) 0 (ss ! k))) = Return 0 s1
               \<and> ss ! Suc k = s1\<lparr>cout := cout s1 @ [CHR 0x0A]\<rparr>"
    by blast
  show ?case
  proof (cases "string_at (lines ! k) 0 = Some CHR ''#''")
    case True
    with step have "ss ! Suc k = logged (lines ! k) 0 (ss ! k)"
      by simp
    with pre True show ?thesis
      by (simp add: snoc executeFile_loop_append Ok_def)
  next
    case False
    with step obtain s1 where
      "executeCommand fuel fs this (lines ! k)
         (report (length (commands_of (take k lines))) (lines ! k)
            (logged (lines ! k) 0 (ss ! k))) = Return 0 s1"
      and "ss ! Suc k = s1\<lparr>cout := cout s1 @ [CHR 0x0A]\<rparr>"
      by auto
    with pre False show ?thesis
      by (simp add: snoc executeFile_loop_append Ok_def)
  qed
qed

text \<open>
  Claim C4. (1) A path that cannot be opened: \<open>executeFile\<close> returns \<open>Error\<close> and writes
  its message. (2) A file that opens, and a run of its first \<open>k\<close> lines from the state
  \<open>s\<close> of the call, given by the states \<open>ss\<close>: each of these lines is a comment, of
  which only the first character is read, or is reported under its sequence number and
  passed to \<open>executeCommand\<close> in the state its predecessors left, where it returns \<open>0\<close>.
  (2a) When these are all the lines of the file, \<open>executeFile\<close> returns \<open>Ok\<close> in the
  state after the last line. (2b) When line \<open>k\<close> is not a comment and \<open>executeCommand\<close>
  returns \<open>r \<noteq> 0\<close> for it in state \<open>s2\<close>, \<open>executeFile\<close> returns \<open>r\<close> in the very
  state \<open>s2\<close>: no later line is run. The hypotheses speak of \<open>executeCommand\<close> alone, so
  the statement fixes the return code and the final state of every script whose lines
  return.
\<close>

theorem executeFile_result:
  "(fs path = None \<longrightarrow>
      executeFile fuel fs this path s =
        Return Error (s\<lparr>cout := cout s @ ''Could not find the specified file to execute.'' @ [CHR 0x0A]\<rparr>))
   \<and> (fs path = Some content \<and> k \<le> length (getlines content) \<and> length ss = Suc k \<and> ss ! 0 = s
        \<and> (\<forall>i<k. if string_at (getlines content ! i) 0 = Some CHR ''#''
                   then ss ! Suc i = logged (getlines content ! i) 0 (ss ! i)
                   else \<exists>s1. executeCommand fuel fs this (getlines content ! i)
                                (report (length (commands_of (take i (getlines content))))
                                   (getlines content ! i)
                                   (logged (getlines content ! i) 0 (ss ! i))) = Return 0 s1
                             \<and> ss ! Suc i = s1\<lparr>cout := cout s1 @ [CHR 0x0A]\<rparr>) \<longrightarrow>
      (k = length (getlines content) \<longrightarrow> executeFile fuel fs this path s = Return Ok (ss ! k))
      \<and> (k < length (getlines content)
           \<and> string_at (getlines content ! k) 0 \<noteq> Some CHR ''#''
           \<and> executeCommand fuel fs this (getlines content ! k)
                (report (length (commands_of (take k (getlines content))))
                   (getlines content ! k)
                   (logged (getlines content ! k) 0 (ss ! k))) = Return r s2
           \<and> r \<noteq> 0 \<longrightarrow>
         executeFile fuel fs this path s = Return r s2))"
proof (intro conjI impI)
  assume "fs path = None"
  then show "executeFile fuel fs this path s =
        Return Error (s\<lparr>cout := cout s @ ''Could not find the specified file to execute.'' @ [CHR 0x0A]\<rparr>)"
    by (simp add: executeFile.simps)
next
  assume a: "fs path = Some content \<and> k \<le> length (getlines content) \<and> length ss = Suc k \<and> ss ! 0 = s
        \<and> (\<forall>i<k. if string_at (getlines content ! i) 0 = Some CHR ''#''
                   then ss ! Suc i = logged (getlines content ! i) 0 (ss ! i)
                   else \<exists>s1. executeCommand fuel fs this (getlines content ! i)
                                (report (length (commands_of (take i (getlines content))))
                                   (getlines content ! i)
                                   (logged (getlines content ! i) 0 (ss ! i))) = Return 0 s1
                             \<and> ss ! Suc i = s1\<lparr>cout := cout s1 @ [CHR 0x0A]\<rparr>)"
    and k: "k = length (getlines content)"
  from a have "executeFile_loop fuel fs this (take k (getlines content)) 0 s = Return Ok (ss ! k)"
    by (intro executeFile_loop_run) simp_all
  with a k show "executeFile fuel fs this path s = Return Ok (ss ! k)"
    by (simp add: executeFile.simps)
next
  assume a: "fs path = Some content \<and> k \<le> length (getlines content) \<and> length ss = Suc k \<and> ss ! 0 = s
        \<and> (\<forall>i<k. if string_at (getlines content ! i) 0 = Some CHR ''#''
                   then ss ! Suc i = logged (getlines content ! i) 0 (ss ! i)
                   else \<exists>s1. executeCommand fuel fs this (getlines content ! i)
                                (report (length (commands_of (take i (getlines content))))
                                   (getlines content ! i)
                                   (logged (getlines content ! i) 0 (ss ! i))) = Return 0 s1
                             \<and> ss ! Suc i = s1\<lparr>cout := cout s1 @ [CHR 0x0A]\<rparr>)"
    and b: "k < length (getlines content)
           \<and> string_at (getlines content ! k) 0 \<noteq> Some CHR ''#''
           \<and> executeCommand fuel fs this (getlines content ! k)
                (report (length (commands_of (take k (getlines content))))
                   (getlines content ! k)
                   (logged (getlines content ! k) 0 (ss ! k))) = Return r s2
           \<and> r \<noteq> 0"
  from a have pre: "executeFile_loop fuel fs this (take k (getlines content)) 0 s = Return Ok (ss ! k)"
    by (intro executeFile_loop_run) simp_all
  from b have split: "getlines content =
      take k (getlines content) @ (getlines content ! k) # drop (Suc k) (getlines content)"
    by (simp add: id_take_nth_drop)
  from b have "executeFile_loop fuel fs this
          (take k (getlines content) @ (getlines content ! k) # drop (Suc k) (getlines content)) 0 s
        = Return r s2"
    by (intro executeFile_loop_stop [OF pre]) simp_all
  with split have "executeFile_loop fuel fs this (getlines content) 0 s = Return r s2"
    by simp
  with a show "executeFile fuel fs this path s = Return r s2"
    by (simp add: executeFile.simps)
qed

text \<open>
  The witness. The application's state is a number; the handler \<^verbatim>\<open>inc\<close> adds one to
  it and returns \<open>0\<close>; the handler \<^verbatim>\<open>check\<close> returns \<open>5\<close> when the number is \<open>1\<close>
  and \<open>0\<close> otherwise. A path that does not exist returns \<open>1\<close>. The script \<^verbatim>\<open>inc\<close>,
  \<^verbatim>\<open>check\<close>, \<^verbatim>\<open>inc\<close> stops at \<^verbatim>\<open>check\<close>, which sees what the first line did, and
  returns \<open>5\<close> with the number still \<open>1\<close>: the last line is not run. The script
  \<^verbatim>\<open># twice\<close>, \<^verbatim>\<open>inc\<close>, \<^verbatim>\<open>inc\<close> is read to its end and returns \<open>0\<close> with the
  number \<open>2\<close>.
\<close>

theorem executeFile_result_witness:
  "executeFile 0 Map.empty
        (registerCommand ''check'' (UserFunction (\<lambda>toks n. (if n = 1 then 5 else 0, n)))
          (registerCommand ''inc'' (UserFunction (\<lambda>toks n. (0, Suc n))) (new_Console ''> '')))
        ''nowhere'' \<lparr>cout = [], user = 0, subscripts = []\<rparr>
     = Return 1 \<lparr>cout = ''Could not find the specified file to execute.'' @ [CHR 0x0A],
                  user = 0, subscripts = []\<rparr>
   \<and> executeFile 0 [''script'' \<mapsto> ''inc'' @ [CHR 0x0A] @ ''check'' @ [CHR 0x0A] @ ''inc'']
        (registerCommand ''check'' (UserFunction (\<lambda>toks n. (if n = 1 then 5 else 0, n)))
          (registerCommand ''inc'' (UserFunction (\<lambda>toks n. (0, Suc n))) (new_Console ''> '')))
        ''script'' \<lparr>cout = [], user = 0, subscripts = []\<rparr>
     = Return 5
         \<lparr>cout = ''[0] inc'' @ [CHR 0x0A] @ [CHR 0x0A] @ ''[1] check'' @ [CHR 0x0A],
          user = 1,
          subscripts = [(''inc'', 0), (''check'', 0)]\<rparr>
   \<and> executeFile 0 [''script'' \<mapsto> ''# twice'' @ [CHR 0x0A] @ ''inc'' @ [CHR 0x0A] @ ''inc'']
        (registerCommand ''check'' (UserFunction (\<lambda>toks n. (if n = 1 then 5 else 0, n)))
          (registerCommand ''inc'' (UserFunction (\<lambda>toks n. (0, Suc n))) (new_Console ''> '')))
        ''script'' \<lparr>cout = [], user = 0, subscripts = []\<rparr>
     = Return 0
         \<lparr>cout = ''[0] inc'' @ [CHR 0x0A] @ [CHR 0x0A] @ ''[1] inc'' @ [CHR 0x0A] @ [CHR 0x0A],
          user = 2,
          subscripts = [(''# twice'', 0), (''inc'', 0), (''inc'', 0)]\<rparr>"
proof -
  define c :: "nat Console" where
    "c = registerCommand ''check'' (UserFunction (\<lambda>toks n. (if n = 1 then 5 else 0, n)))
          (registerCommand ''inc'' (UserFunction (\<lambda>toks n. (0, Suc n))) (new_Console ''> ''))"
  let ?s = "\<lparr>cout = [], user = 0, subscripts = []\<rparr> :: nat exec_state"
  have inc: "executeCommand 0 fs c ''inc'' st = Return 0 (st\<lparr>user := Suc (user st)\<rparr>)"
    for fs and st :: "nat exec_state"
    by (simp add: c_def executeCommand.simps tokenize_def isspace_def registerCommand_def
          map_of_assign static_cast_int_def)
  have check: "executeCommand 0 fs c ''check'' st = Return (if user st = 1 then 5 else 0) st"
    for fs and st :: "nat exec_state"
    by (simp add: c_def executeCommand.simps tokenize_def isspace_def registerCommand_def
          map_of_assign static_cast_int_def)
  have one: "executeFile 0 Map.empty c ''nowhere'' ?s
     = Return 1 \<lparr>cout = ''Could not find the specified file to execute.'' @ [CHR 0x0A],
                  user = 0, subscripts = []\<rparr>"
    using executeFile_result [of Map.empty "''nowhere''" 0 c ?s]
    by (simp add: Error_def)
  let ?content2 = "''inc'' @ [CHR 0x0A] @ ''check'' @ [CHR 0x0A] @ ''inc''"
  let ?a1 = "\<lparr>cout = ''[0] inc'' @ [CHR 0x0A] @ [CHR 0x0A], user = 1,
              subscripts = [(''inc'', 0)]\<rparr> :: nat exec_state"
  let ?a2 = "\<lparr>cout = ''[0] inc'' @ [CHR 0x0A] @ [CHR 0x0A] @ ''[1] check'' @ [CHR 0x0A], user = 1,
              subscripts = [(''inc'', 0), (''check'', 0)]\<rparr> :: nat exec_state"
  have lines2: "getlines ?content2 = [''inc'', ''check'', ''inc'']"
    by (simp add: getlines_def)
  have two: "executeFile 0 [''script'' \<mapsto> ?content2] c ''script'' ?s = Return 5 ?a2"
    using executeFile_result [of "[''script'' \<mapsto> ?content2]" "''script''" 0 c ?s ?content2
            1 "[?s, ?a1]" 5 ?a2]
    unfolding lines2
    by (simp add: string_at_def logged_def report_def decimal.simps commands_of_def inc check)
  let ?content3 = "''# twice'' @ [CHR 0x0A] @ ''inc'' @ [CHR 0x0A] @ ''inc''"
  let ?b1 = "\<lparr>cout = [], user = 0, subscripts = [(''# twice'', 0)]\<rparr> :: nat exec_state"
  let ?b2 = "\<lparr>cout = ''[0] inc'' @ [CHR 0x0A] @ [CHR 0x0A], user = 1,
              subscripts = [(''# twice'', 0), (''inc'', 0)]\<rparr> :: nat exec_state"
  let ?b3 = "\<lparr>cout = ''[0] inc'' @ [CHR 0x0A] @ [CHR 0x0A] @ ''[1] inc'' @ [CHR 0x0A] @ [CHR 0x0A],
              user = 2,
              subscripts = [(''# twice'', 0), (''inc'', 0), (''inc'', 0)]\<rparr> :: nat exec_state"
  have lines3: "getlines ?content3 = [''# twice'', ''inc'', ''inc'']"
    by (simp add: getlines_def)
  have three: "executeFile 0 [''script'' \<mapsto> ?content3] c ''script'' ?s = Return 0 ?b3"
    using executeFile_result [of "[''script'' \<mapsto> ?content3]" "''script''" 0 c ?s ?content3
            3 "[?s, ?b1, ?b2, ?b3]"]
    unfolding lines3
    by (simp add: string_at_def logged_def report_def decimal.simps commands_of_def inc
          Ok_def numeral_3_eq_3 All_less_Suc)
  from one two three show ?thesis
    unfolding c_def by (intro conjI)
qed

subsection \<open>The comment test of the script runner\<close>

text \<open>The log of subscript calls only grows.\<close>

lemma subscripts_grow:
  shows "executeCommand fuel fs this command s = Return r s' \<Longrightarrow> set (subscripts s) \<subseteq> set (subscripts s')"
    and "executeFile fuel fs this filename s = Return r s' \<Longrightarrow> set (subscripts s) \<subseteq> set (subscripts s')"
    and "executeFile_loop fuel fs this lines counter s = Return r s' \<Longrightarrow> set (subscripts s) \<subseteq> set (subscripts s')"
proof (induction fuel fs this command s and fuel fs this filename s and fuel fs this lines counter s
       arbitrary: r s' and r s' and r s'
       rule: executeCommand_executeFile_executeFile_loop.induct)
  case (1 fuel fs this command s)
  let ?x = "tokenize command"
  show ?case
  proof (cases "length ?x \<noteq> 0 \<and> \<not> (?x ! 0 = ''quit'' \<or> ?x ! 0 = ''exit'')
                \<and> map_of (commands this) (?x ! 0) = Some RunLambda \<and> \<not> length ?x < 2 \<and> fuel \<noteq> 0")
    case True
    with "1.prems" obtain r1 where "executeFile (fuel - 1) fs this (?x ! 1) s = Return r1 s'"
      by (auto simp: executeCommand.simps [of fuel fs this command s] Let_def split: result.splits)
    with "1.IH" [OF refl _ _ _ refl, of r1 s'] True show ?thesis
      by simp
  next
    case False
    with "1.prems" show ?thesis
      by (auto simp: executeCommand.simps [of fuel fs this command s] Let_def
               split: if_splits option.splits CommandFunction.splits result.splits prod.splits)
  qed
next
  case (2 fuel fs this filename s)
  from "2.prems" show ?case
    by (auto simp: executeFile.simps [of fuel fs this filename s] split: option.splits dest!: "2.IH")
next
  case (3 fuel fs this counter s)
  then show ?case by simp
next
  case (4 fuel fs this command rest counter s)
  show ?case
  proof (cases "string_at command 0 = Some CHR ''#''")
    case True
    with "4.prems" have "executeFile_loop fuel fs this rest counter (logged command 0 s) = Return r s'"
      by simp
    from "4.IH"(1) [OF refl True this] show ?thesis
      by (auto simp: logged_def)
  next
    case False
    show ?thesis
    proof (cases "executeCommand fuel fs this command (report counter command (logged command 0 s))")
      case (Return r1 s1)
      from "4.IH"(2) [OF refl False Return]
      have a: "set (subscripts s) \<subseteq> set (subscripts s1)"
        by (auto simp: logged_def report_def)
      show ?thesis
      proof (cases "r1 = 0")
        case True
        with "4.prems" False Return
        have "executeFile_loop fuel fs this rest (counter + 1) (s1\<lparr>cout := cout s1 @ [CHR 0x0A]\<rparr>) = Return r s'"
          by simp
        from "4.IH"(3) [OF refl False Return _ this] True a show ?thesis
          by auto
      next
        case nz: False
        with "4.prems" False Return a show ?thesis by auto
      qed
    next
      case (Throw s1)
      with "4.prems" False show ?thesis by simp
    next
      case Diverge
      with "4.prems" False show ?thesis by simp
    qed
  qed
qed

text \<open>
  Claim C9, as stated, fails: the test \<^verbatim>\<open>command[0] == '#'\<close> has no guard. For the
  script that consists of one empty line, the log shows the call of \<^verbatim>\<open>operator[]\<close>
  with position \<open>0\<close> on the empty string; the line is then echoed and executed.
\<close>

theorem empty_line_is_indexed:
  "executeFile 0 [''script'' \<mapsto> [CHR 0x0A]] (new_Console ''> '') ''script''
     \<lparr>cout = [], user = (), subscripts = []\<rparr>
   = Return 0 \<lparr>cout = ''[0] '' @ [CHR 0x0A, CHR 0x0A], user = (), subscripts = [([], 0)]\<rparr>"
  by (simp add: executeFile.simps getlines_def string_at_def logged_def report_def decimal.simps
        executeCommand.simps tokenize_def Ok_def)

text \<open>
  Claim C9, amended. A line whose first character is \<^verbatim>\<open>#\<close> is skipped: the loop goes
  on with the next line, the counter and the output unchanged. Character \<open>0\<close> is read
  on every line the loop reaches, without a test for emptiness: after the loop has
  processed \<open>command # rest\<close>, the call \<open>(command, 0)\<close> is in the log. The read is never
  out of range; on the empty line it yields the null character at position \<open>size()\<close>,
  which is not \<^verbatim>\<open>#\<close>, so the empty line is not skipped: it is echoed with its number
  and executed, which returns \<open>Ok\<close>, and the loop goes on with the counter advanced.
\<close>

theorem comment_test_unguarded:
  "executeFile_loop fuel fs this ((CHR ''#'' # x) # rest) counter s
     = executeFile_loop fuel fs this rest counter (logged (CHR ''#'' # x) 0 s)
   \<and> string_at [] 0 = Some (CHR 0x00)
   \<and> string_at command 0 \<noteq> None
   \<and> executeFile_loop fuel fs this ([] # rest) counter s
     = executeFile_loop fuel fs this rest (counter + 1)
         ((report counter [] (logged [] 0 s))\<lparr>cout := cout (report counter [] (logged [] 0 s)) @ [CHR 0x0A]\<rparr>)
   \<and> (executeFile_loop fuel fs this (command # rest) counter s = Return r s' \<longrightarrow>
        (command, 0) \<in> set (subscripts s'))"
proof (intro conjI impI)
  show "executeFile_loop fuel fs this ((CHR ''#'' # x) # rest) counter s
     = executeFile_loop fuel fs this rest counter (logged (CHR ''#'' # x) 0 s)"
    by (simp add: string_at_def)
  show "string_at [] 0 = Some (CHR 0x00)"
    by (simp add: string_at_def)
  show "string_at command 0 \<noteq> None"
    by (simp add: string_at_def)
  show "executeFile_loop fuel fs this ([] # rest) counter s
     = executeFile_loop fuel fs this rest (counter + 1)
         ((report counter [] (logged [] 0 s))\<lparr>cout := cout (report counter [] (logged [] 0 s)) @ [CHR 0x0A]\<rparr>)"
    by (simp add: string_at_def executeCommand.simps tokenize_def Ok_def Let_def)
next
  assume run: "executeFile_loop fuel fs this (command # rest) counter s = Return r s'"
  have here: "(command, 0) \<in> set (subscripts (logged command 0 s))"
    by (simp add: logged_def)
  show "(command, 0) \<in> set (subscripts s')"
  proof (cases "string_at command 0 = Some CHR ''#''")
    case True
    with run have "executeFile_loop fuel fs this rest counter (logged command 0 s) = Return r s'"
      by simp
    from subscripts_grow(3) [OF this] here show ?thesis
      by blast
  next
    case False
    show ?thesis
    proof (cases "executeCommand fuel fs this command (report counter command (logged command 0 s))")
      case (Return r1 s1)
      from subscripts_grow(1) [OF Return] here have s1: "(command, 0) \<in> set (subscripts s1)"
        by (auto simp: report_def)
      show ?thesis
      proof (cases "r1 = 0")
        case True
        with run False Return
        have "executeFile_loop fuel fs this rest (counter + 1) (s1\<lparr>cout := cout s1 @ [CHR 0x0A]\<rparr>) = Return r s'"
          by simp
        from subscripts_grow(3) [OF this] s1 show ?thesis
          by auto
      next
        case nz: False
        with run False Return s1 show ?thesis by simp
      qed
    next
      case (Throw s1)
      with run False show ?thesis by simp
    next
      case Diverge
      with run False show ?thesis by simp
    qed
  qed
qed

theorem comment_test_unguarded_witness:
  "executeFile_loop 0 Map.empty (new_Console ''> '') [''# note'', []] 0 \<lparr>cout = [], user = (), subscripts = []\<rparr>
     = Return 0 \<lparr>cout = ''[0] '' @ [CHR 0x0A, CHR 0x0A], user = (), subscripts = [(''# note'', 0), ([], 0)]\<rparr>
   \<and> (''# note'', 0) \<in> set [(''# note'', 0), ([], 0 :: nat)]"
proof -
  have run: "executeFile_loop 0 Map.empty (new_Console ''> '') [''# note'', []] 0
       \<lparr>cout = [], user = (), subscripts = []\<rparr>
     = Return 0 \<lparr>cout = ''[0] '' @ [CHR 0x0A, CHR 0x0A], user = (), subscripts = [(''# note'', 0), ([], 0)]\<rparr>"
    by (simp add: string_at_def logged_def report_def decimal.simps executeCommand.simps
          tokenize_def Ok_def)
  from comment_test_unguarded [of 0 Map.empty "new_Console ''> ''" "'' note''" "[[]]" 0
         "\<lparr>cout = [], user = (), subscripts = []\<rparr>" "''# note''" 0
         "\<lparr>cout = ''[0] '' @ [CHR 0x0A, CHR 0x0A], user = (), subscripts = [(''# note'', 0), ([], 0)]\<rparr>"]
       run
  show ?thesis
    by simp
qed

subsection \<open>The entries of quit and exit\<close>

text \<open>
  \<^verbatim>\<open>std::bad_function_call\<close> leaves \<open>executeCommand\<close> only when the function found in the
  registry is empty; when the only empty functions stand under \<open>quit\<close> and \<open>exit\<close>, it
  never does, however deep the scripts nest.
\<close>

lemma no_bad_function_call:
  shows "\<forall>name. map_of (commands this) name = Some EmptyFunction \<longrightarrow> name = ''quit'' \<or> name = ''exit'' \<Longrightarrow>
           executeCommand fuel fs this command s \<noteq> Throw s'"
    and "\<forall>name. map_of (commands this) name = Some EmptyFunction \<longrightarrow> name = ''quit'' \<or> name = ''exit'' \<Longrightarrow>
           executeFile fuel fs this filename s \<noteq> Throw s'"
    and "\<forall>name. map_of (commands this) name = Some EmptyFunction \<longrightarrow> name = ''quit'' \<or> name = ''exit'' \<Longrightarrow>
           executeFile_loop fuel fs this lines counter s \<noteq> Throw s'"
proof (induction fuel fs this command s and fuel fs this filename s and fuel fs this lines counter s
       arbitrary: s' and s' and s'
       rule: executeCommand_executeFile_executeFile_loop.induct)
  case (1 fuel fs this command s)
  let ?x = "tokenize command"
  show ?case
  proof (cases "length ?x \<noteq> 0 \<and> \<not> (?x ! 0 = ''quit'' \<or> ?x ! 0 = ''exit'')
                \<and> map_of (commands this) (?x ! 0) = Some RunLambda \<and> \<not> length ?x < 2 \<and> fuel \<noteq> 0")
    case True
    with "1.IH" [OF refl _ _ _ refl _ _ "1.prems", of s']
    have "executeFile (fuel - 1) fs this (?x ! 1) s \<noteq> Throw s'"
      by simp
    with True show ?thesis
      by (auto simp: executeCommand.simps [of fuel fs this command s] Let_def split: result.splits)
  next
    case False
    with "1.prems" show ?thesis
      by (auto simp: executeCommand.simps [of fuel fs this command s] Let_def
               split: if_splits option.splits CommandFunction.splits result.splits prod.splits)
  qed
next
  case (2 fuel fs this filename s)
  then show ?case
    by (auto simp: executeFile.simps [of fuel fs this filename s] split: option.splits)
next
  case (3 fuel fs this counter s)
  then show ?case by simp
next
  case (4 fuel fs this command rest counter s)
  show ?case
  proof (cases "string_at command 0 = Some CHR ''#''")
    case True
    with "4.IH"(1) [OF refl True "4.prems", of s'] show ?thesis
      by simp
  next
    case False
    show ?thesis
    proof (cases "executeCommand fuel fs this command (report counter command (logged command 0 s))")
      case (Return r1 s1)
      show ?thesis
      proof (cases "r1 = 0")
        case True
        with "4.IH"(3) [OF refl False Return _ "4.prems", of s'] False Return show ?thesis
          by simp
      next
        case nz: False
        with False Return show ?thesis by simp
      qed
    next
      case (Throw s1)
      with "4.IH"(2) [OF refl False "4.prems", of s1] show ?thesis
        by simp
    next
      case Diverge
      with False show ?thesis by simp
    qed
  qed
qed

lemma map_fst_assign: "k \<in> fst ` set cs \<Longrightarrow> map fst (assign k v cs) = map fst cs"
  by (induction k v cs rule: assign.induct) auto

text \<open>
  The function stored under \<open>quit\<close> or \<open>exit\<close> has no part in any run: a console in which
  it is replaced behaves the same on every line and every script.
\<close>

lemma entry_irrelevant:
  shows "k = ''quit'' \<or> k = ''exit'' \<Longrightarrow> k \<in> set (getRegisteredCommands this) \<Longrightarrow>
           executeCommand fuel fs (registerCommand k f this) command s = executeCommand fuel fs this command s"
    and "k = ''quit'' \<or> k = ''exit'' \<Longrightarrow> k \<in> set (getRegisteredCommands this) \<Longrightarrow>
           executeFile fuel fs (registerCommand k f this) filename s = executeFile fuel fs this filename s"
    and "k = ''quit'' \<or> k = ''exit'' \<Longrightarrow> k \<in> set (getRegisteredCommands this) \<Longrightarrow>
           executeFile_loop fuel fs (registerCommand k f this) lines counter s
             = executeFile_loop fuel fs this lines counter s"
proof (induction fuel fs this command s and fuel fs this filename s and fuel fs this lines counter s
       rule: executeCommand_executeFile_executeFile_loop.induct)
  case (1 fuel fs this command s)
  let ?x = "tokenize command"
  have names: "getRegisteredCommands (registerCommand k f this) = getRegisteredCommands this"
    using "1.prems"(2) by (simp add: getRegisteredCommands_def registerCommand_def map_fst_assign)
  have look: "name \<noteq> ''quit'' \<Longrightarrow> name \<noteq> ''exit'' \<Longrightarrow>
      map_of (commands (registerCommand k f this)) name = map_of (commands this) name" for name
    using "1.prems"(1) by (auto simp: registerCommand_def map_of_assign)
  show ?case
  proof (cases "length ?x \<noteq> 0 \<and> \<not> (?x ! 0 = ''quit'' \<or> ?x ! 0 = ''exit'')
                \<and> map_of (commands this) (?x ! 0) = Some RunLambda \<and> \<not> length ?x < 2 \<and> fuel \<noteq> 0")
    case True
    with "1.IH" [OF refl _ _ _ refl _ _ "1.prems"]
    have "executeFile (fuel - 1) fs (registerCommand k f this) (?x ! 1) s
            = executeFile (fuel - 1) fs this (?x ! 1) s"
      by simp
    with True look [of "?x ! 0"] show ?thesis
      by (simp add: executeCommand.simps [of fuel fs _ command s] Let_def)
  next
    case False
    with look [of "?x ! 0"] names show ?thesis
      by (auto simp: executeCommand.simps [of fuel fs _ command s] Let_def
               split: if_splits option.splits CommandFunction.splits result.splits prod.splits)
  qed
next
  case (2 fuel fs this filename s)
  then show ?case
    by (auto simp: executeFile.simps [of fuel fs _ filename s] split: option.splits)
next
  case (3 fuel fs this counter s)
  then show ?case by simp
next
  case (4 fuel fs this command rest counter s)
  show ?case
  proof (cases "string_at command 0 = Some CHR ''#''")
    case True
    with "4.IH"(1) [OF refl True "4.prems"] show ?thesis
      by simp
  next
    case False
    note cmd = "4.IH"(2) [OF refl False "4.prems"]
    show ?thesis
    proof (cases "executeCommand fuel fs this command (report counter command (logged command 0 s))")
      case (Return r1 s1)
      show ?thesis
      proof (cases "r1 = 0")
        case True
        with "4.IH"(3) [OF refl False Return _ "4.prems"] False Return cmd show ?thesis
          by simp
      next
        case nz: False
        with False Return cmd show ?thesis by simp
      qed
    next
      case (Throw s1)
      with False cmd show ?thesis by simp
    next
      case Diverge
      with False cmd show ?thesis by simp
    qed
  qed
qed

text \<open>
  Claim C10. The constructor stores the empty function under \<open>quit\<close> and under \<open>exit\<close>.
  \<open>executeCommand\<close> on a constructed console never ends in \<^verbatim>\<open>std::bad_function_call\<close>,
  for no line, and the same holds for every console whose only empty functions are
  these two. For every console that has the key, replacing the function under \<open>quit\<close> or
  \<open>exit\<close> by any other changes the outcome of no line: the entry is never called. Both
  names are among the registered commands, and \<^verbatim>\<open>help\<close> prints every registered
  command.
\<close>

theorem quit_exit_entries_never_invoked:
  "map_of (commands (new_Console g :: 'u Console)) ''quit'' = Some EmptyFunction
   \<and> map_of (commands (new_Console g :: 'u Console)) ''exit'' = Some EmptyFunction
   \<and> executeCommand fuel fs (new_Console g :: 'u Console) line s \<noteq> Throw s'
   \<and> ((\<forall>name. map_of (commands this) name = Some EmptyFunction \<longrightarrow> name = ''quit'' \<or> name = ''exit'')
        \<longrightarrow> executeCommand fuel fs this line s \<noteq> Throw s')
   \<and> ((k = ''quit'' \<or> k = ''exit'') \<and> k \<in> set (getRegisteredCommands this)
        \<longrightarrow> executeCommand fuel fs (registerCommand k f this) line s = executeCommand fuel fs this line s)
   \<and> ''quit'' \<in> set (getRegisteredCommands (new_Console g :: 'u Console))
   \<and> ''exit'' \<in> set (getRegisteredCommands (new_Console g :: 'u Console))
   \<and> executeCommand fuel fs (new_Console g :: 'u Console) ''help'' s =
       Return 0 (s\<lparr>cout := cout s @ ''Available commands are:'' @ [CHR 0x0A]
                   @ concat (map (\<lambda>command. [CHR 0x09] @ command @ [CHR 0x0A])
                       (getRegisteredCommands (new_Console g :: 'u Console)))\<rparr>)"
proof -
  have "executeCommand fuel fs (new_Console g :: 'u Console) line s \<noteq> Throw s'"
    using no_bad_function_call(1) [of "new_Console g" fuel fs line s s'] by (simp add: new_Console_def)
  moreover have "executeCommand fuel fs (new_Console g :: 'u Console) ''help'' s =
       Return 0 (s\<lparr>cout := cout s @ ''Available commands are:'' @ [CHR 0x0A]
                   @ concat (map (\<lambda>command. [CHR 0x09] @ command @ [CHR 0x0A])
                       (getRegisteredCommands (new_Console g :: 'u Console)))\<rparr>)"
  proof -
    have "tokenize ''help'' = [''help'']"
      by (simp add: tokenize_def isspace_def)
    moreover have "map_of (commands (new_Console g :: 'u Console)) ''help'' = Some HelpLambda"
      by (simp add: new_Console_def)
    ultimately show ?thesis
      by (simp add: executeCommand.simps static_cast_int_def to_unsigned_def Let_def)
  qed
  ultimately show ?thesis
    using no_bad_function_call(1) [of this fuel fs line s s'] entry_irrelevant(1) [of k this fuel fs f line s]
    by (simp add: new_Console_def getRegisteredCommands_def)
qed

theorem quit_exit_entries_never_invoked_witness:
  "executeCommand 1 Map.empty (new_Console ''> '') ''exit'' \<lparr>cout = [], user = (), subscripts = []\<rparr>
     \<noteq> Throw \<lparr>cout = [], user = (), subscripts = []\<rparr>
   \<and> executeCommand 1 Map.empty
        (registerCommand ''exit'' (UserFunction (\<lambda>toks u. (5, u))) (new_Console ''> '')) ''exit''
        \<lparr>cout = [], user = (), subscripts = []\<rparr>
     = Return (- 1) \<lparr>cout = [], user = (), subscripts = []\<rparr>"
proof -
  have only: "\<forall>name. map_of (commands (new_Console ''> '' :: unit Console)) name = Some EmptyFunction
                \<longrightarrow> name = ''quit'' \<or> name = ''exit''"
    by (simp add: new_Console_def)
  have key: "''exit'' \<in> set (getRegisteredCommands (new_Console ''> '' :: unit Console))"
    by (simp add: new_Console_def getRegisteredCommands_def)
  have run: "executeCommand 1 Map.empty (new_Console ''> '') ''exit'' \<lparr>cout = [], user = (), subscripts = []\<rparr>
     = Return (- 1) \<lparr>cout = [], user = (), subscripts = []\<rparr>"
    by (simp add: executeCommand.simps tokenize_def isspace_def Quit_def)
  note inst = quit_exit_entries_never_invoked [of "''> ''" 1 Map.empty "''exit''"
         "\<lparr>cout = [], user = (), subscripts = []\<rparr>" "\<lparr>cout = [], user = (), subscripts = []\<rparr>"
         "new_Console ''> ''" "''exit''" "UserFunction (\<lambda>toks u. (5, u))"]
  from inst only have a: "executeCommand 1 Map.empty (new_Console ''> '') ''exit''
       \<lparr>cout = [], user = (), subscripts = []\<rparr> \<noteq> Throw \<lparr>cout = [], user = (), subscripts = []\<rparr>"
    by blast
  from inst key have "executeCommand 1 Map.empty
        (registerCommand ''exit'' (UserFunction (\<lambda>toks u. (5, u))) (new_Console ''> '')) ''exit''
        \<lparr>cout = [], user = (), subscripts = []\<rparr>
      = executeCommand 1 Map.empty (new_Console ''> '') ''exit'' \<lparr>cout = [], user = (), subscripts = []\<rparr>"
    by blast
  with a run show ?thesis
    by (simp only: simp_thms)
qed

subsection \<open>Completion\<close>

text \<open>
  \<open>find_string\<close> finds \<open>t\<close> in \<open>s\<close> exactly when \<open>t\<close> is a substring of \<open>s\<close>:
  \<open>s = ps @ t @ ss\<close> for some \<open>ps\<close> and \<open>ss\<close>, which is \<open>sublist t s\<close>.
\<close>

lemma starts_with_prefix: "starts_with s t = prefix t s"
  by (induction s t rule: starts_with.induct) auto

lemma find_string_None: "(find_string s t = None) = (\<not> sublist t s)"
  by (induction s) (auto simp: starts_with_prefix sublist_Cons_right)

text \<open>
  The copy of a key into an array of as many bytes as the key has characters. It fits
  only when the key holds a null character, which ends the C string before the end of
  the key; the copy of any other key writes one byte past the end of the array.
\<close>

lemma strcpy_own_size:
  "strcpy (length s) s =
     (if CHR 0x00 \<in> set s then Inr (takeWhile (\<lambda>c. c \<noteq> CHR 0x00) s) else Inl BufferOverflow)"
proof (cases "CHR 0x00 \<in> set s")
  case True
  then have "length (takeWhile (\<lambda>c. c \<noteq> CHR 0x00) s) < length s"
    by (induction s) auto
  with True show ?thesis
    by (simp add: strcpy_def)
next
  case False
  then have eq: "takeWhile (\<lambda>c. c \<noteq> CHR 0x00) s = s"
    by (induction s) auto
  from False show ?thesis
    unfolding strcpy_def Let_def eq by simp
qed

text \<open>
  The loop of the iterator, from the entries not yet visited: it stops at the first key
  that contains \<open>t\<close> and copies it. No such key: it answers \<^verbatim>\<open>nullptr\<close> at the end of
  the registry. Some such key, and no key with a null character: the copy overruns its
  array.
\<close>

lemma commandIterator_loop_dropWhile:
  "commandIterator_loop t cur =
     (case dropWhile (\<lambda>entry. \<not> sublist t (fst entry)) cur of
        [] \<Rightarrow> Inr (None, [])
      | entry # rest \<Rightarrow>
          (case strcpy (length (fst entry)) (fst entry) of
             Inl e \<Rightarrow> Inl e
           | Inr completion \<Rightarrow> Inr (Some completion, rest)))"
  by (induction t cur rule: commandIterator_loop.induct) (simp_all add: find_string_None)

lemma commandIterator_loop_no_match:
  "\<forall>name\<in>set (map fst cur). \<not> sublist t name \<Longrightarrow> commandIterator_loop t cur = Inr (None, [])"
  by (induction t cur rule: commandIterator_loop.induct) (simp_all add: find_string_None)

lemma commandIterator_loop_overflow:
  "\<exists>name\<in>set (map fst cur). sublist t name \<Longrightarrow> \<forall>name\<in>set (map fst cur). CHR 0x00 \<notin> set name \<Longrightarrow>
     commandIterator_loop t cur = Inl BufferOverflow"
proof (induction t cur rule: commandIterator_loop.induct)
  case (1 t)
  then show ?case by simp
next
  case (2 t command f rest)
  show ?case
  proof (cases "sublist t command")
    case True
    moreover from "2.prems" have "CHR 0x00 \<notin> set command"
      by simp
    ultimately show ?thesis
      by (simp add: find_string_None strcpy_own_size)
  next
    case False
    with "2.prems" have "\<exists>name\<in>set (map fst rest). sublist t name"
      and "\<forall>name\<in>set (map fst rest). CHR 0x00 \<notin> set name"
      by simp_all
    with "2.IH" False show ?thesis
      by (simp add: find_string_None)
  qed
qed

text \<open>
  A completion request at column 0 on a live active console: the engine's first call of
  the generator, with \<open>state = 0\<close>, runs the loop on the whole registry.
\<close>

lemma completions_fault:
  "currentConsole w = Some a \<Longrightarrow> consoles w a = Some c \<Longrightarrow>
     commandIterator_loop t (commands c) = Inl f \<Longrightarrow> getCommandCompletions t 0 e w = Inl f"
  by (simp add: getCommandCompletions_def rl_completion_matches_def rl_generate.simps [of t 0 w]
        commandIterator_def)

lemma completions_none:
  "currentConsole w = Some a \<Longrightarrow> consoles w a = Some c \<Longrightarrow>
     commandIterator_loop t (commands c) = Inr (None, cur') \<Longrightarrow>
     getCommandCompletions t 0 e w = Inr (None, w\<lparr>iter := Some cur'\<rparr>)"
  by (simp add: getCommandCompletions_def rl_completion_matches_def rl_generate.simps [of t 0 w]
        commandIterator_def)

text \<open>
  Claim C7. The claim fails on the code. (1) With \<open>start \<noteq> 0\<close> a completion request
  yields no list and changes nothing, as the claim says. (2) With \<open>start = 0\<close> and a live
  active console \<open>c\<close> of which no registered name contains \<open>t\<close>, it yields no list and
  leaves the iterator at the end of the registry, as the claim says. (3) With
  \<open>start = 0\<close> and some registered name that contains \<open>t\<close>, no name holding a null
  character, it yields no list of matches: the copy of the first match writes past the
  end of its array, \<^verbatim>\<open>new char[command.size()]\<close> being one byte short of what
  \<^verbatim>\<open>strcpy\<close> writes. (4) So for a registry with the names \<open>help\<close>, \<open>run\<close>, \<open>quit\<close>,
  \<open>exit\<close>, in whatever order, the request for \<open>h\<close> at \<open>start = 0\<close> does not return the
  list of \<open>help\<close>; it overruns the array of four bytes allocated for \<open>help\<close>.
\<close>

theorem completion_overruns_buffer:
  "(start \<noteq> 0 \<longrightarrow> getCommandCompletions t start e w = Inr (None, w))
   \<and> (currentConsole w = Some a \<and> consoles w a = Some c
        \<and> (\<forall>name\<in>set (getRegisteredCommands c). \<not> sublist t name) \<longrightarrow>
        getCommandCompletions t 0 e w = Inr (None, w\<lparr>iter := Some []\<rparr>))
   \<and> (currentConsole w = Some a \<and> consoles w a = Some c
        \<and> (\<exists>name\<in>set (getRegisteredCommands c). sublist t name)
        \<and> (\<forall>name\<in>set (getRegisteredCommands c). CHR 0x00 \<notin> set name) \<longrightarrow>
        getCommandCompletions t 0 e w = Inl BufferOverflow)
   \<and> (currentConsole w = Some a \<and> consoles w a = Some c
        \<and> set (getRegisteredCommands c) = {''help'', ''run'', ''quit'', ''exit''} \<longrightarrow>
        getCommandCompletions ''h'' 0 e w = Inl BufferOverflow)"
proof (intro conjI impI)
  assume "start \<noteq> 0"
  then show "getCommandCompletions t start e w = Inr (None, w)"
    by (simp add: getCommandCompletions_def)
next
  assume a: "currentConsole w = Some a \<and> consoles w a = Some c
        \<and> (\<forall>name\<in>set (getRegisteredCommands c). \<not> sublist t name)"
  then have "\<forall>name\<in>set (map fst (commands c)). \<not> sublist t name"
    unfolding getRegisteredCommands_def by (rule conjunct2 [THEN conjunct2])
  then have "commandIterator_loop t (commands c) = Inr (None, [])"
    by (rule commandIterator_loop_no_match)
  with a show "getCommandCompletions t 0 e w = Inr (None, w\<lparr>iter := Some []\<rparr>)"
    using completions_none [of w a c t "[]" e] by simp
next
  assume a: "currentConsole w = Some a \<and> consoles w a = Some c
        \<and> (\<exists>name\<in>set (getRegisteredCommands c). sublist t name)
        \<and> (\<forall>name\<in>set (getRegisteredCommands c). CHR 0x00 \<notin> set name)"
  then have "\<exists>name\<in>set (map fst (commands c)). sublist t name"
    unfolding getRegisteredCommands_def by (rule conjunct2 [THEN conjunct2, THEN conjunct1])
  moreover from a have "\<forall>name\<in>set (map fst (commands c)). CHR 0x00 \<notin> set name"
    unfolding getRegisteredCommands_def by (rule conjunct2 [THEN conjunct2, THEN conjunct2])
  ultimately have "commandIterator_loop t (commands c) = Inl BufferOverflow"
    by (rule commandIterator_loop_overflow)
  with a show "getCommandCompletions t 0 e w = Inl BufferOverflow"
    using completions_fault [of w a c t BufferOverflow e] by simp
next
  assume a: "currentConsole w = Some a \<and> consoles w a = Some c
        \<and> set (getRegisteredCommands c) = {''help'', ''run'', ''quit'', ''exit''}"
  then have names: "set (map fst (commands c)) = {''help'', ''run'', ''quit'', ''exit''}"
    unfolding getRegisteredCommands_def by (rule conjunct2 [THEN conjunct2])
  have "sublist ''h'' ''help''"
    using find_string_None [of "''help''" "''h''"] by simp
  then have "\<exists>name\<in>set (map fst (commands c)). sublist ''h'' name"
    unfolding names by simp
  moreover have "\<forall>name\<in>set (map fst (commands c)). CHR 0x00 \<notin> set name"
    unfolding names by simp
  ultimately have "commandIterator_loop ''h'' (commands c) = Inl BufferOverflow"
    by (rule commandIterator_loop_overflow)
  with a show "getCommandCompletions ''h'' 0 e w = Inl BufferOverflow"
    using completions_fault [of w a c "''h''" BufferOverflow e] by simp
qed

text \<open>
  The witness: a console as its constructor leaves it, the active one. A request at
  column 4 and a request for \<open>z\<close> at column 0 yield no list; the request for \<open>h\<close> at
  column 0 overruns the array allocated for \<open>help\<close>.
\<close>

theorem completion_overruns_buffer_witness:
  "getCommandCompletions ''h'' 4 5
     (\<lparr>consoles = [1 \<mapsto> new_Console ''> ''], currentConsole = Some 1, emptyHistory = [],
       iter = None, the_history = [], next_entry = 0\<rparr> :: unit world)
     = Inr (None,
         \<lparr>consoles = [1 \<mapsto> new_Console ''> ''], currentConsole = Some 1, emptyHistory = [],
          iter = None, the_history = [], next_entry = 0\<rparr>)
   \<and> getCommandCompletions ''z'' 0 5
     (\<lparr>consoles = [1 \<mapsto> new_Console ''> ''], currentConsole = Some 1, emptyHistory = [],
       iter = None, the_history = [], next_entry = 0\<rparr> :: unit world)
     = Inr (None,
         \<lparr>consoles = [1 \<mapsto> new_Console ''> ''], currentConsole = Some 1, emptyHistory = [],
          iter = Some [], the_history = [], next_entry = 0\<rparr>)
   \<and> getCommandCompletions ''h'' 0 5
     (\<lparr>consoles = [1 \<mapsto> new_Console ''> ''], currentConsole = Some 1, emptyHistory = [],
       iter = None, the_history = [], next_entry = 0\<rparr> :: unit world)
     = Inl BufferOverflow"
proof -
  let ?w = "\<lparr>consoles = [1 \<mapsto> new_Console ''> ''], currentConsole = Some 1, emptyHistory = [],
       iter = None, the_history = [], next_entry = 0\<rparr> :: unit world"
  have names: "getRegisteredCommands (new_Console ''> '' :: unit Console)
                 = [''quit'', ''exit'', ''help'', ''run'']"
    by (simp add: new_Console_def getRegisteredCommands_def)
  have s: "set (getRegisteredCommands (new_Console ''> '' :: unit Console))
             = {''help'', ''run'', ''quit'', ''exit''}"
    unfolding names by (simp add: insert_commute)
  have z: "\<forall>name\<in>set (getRegisteredCommands (new_Console ''> '' :: unit Console)). \<not> sublist ''z'' name"
    unfolding names by (simp add: find_string_None [symmetric])
  have h: "\<exists>name\<in>set (getRegisteredCommands (new_Console ''> '' :: unit Console)). sublist ''h'' name"
    unfolding names by (simp add: find_string_None [symmetric])
  have n: "\<forall>name\<in>set (getRegisteredCommands (new_Console ''> '' :: unit Console)). CHR 0x00 \<notin> set name"
    unfolding names by simp
  have c: "currentConsole ?w = Some 1" "consoles ?w 1 = Some (new_Console ''> '')"
    by simp_all
  have one: "getCommandCompletions ''h'' 4 5 ?w = Inr (None, ?w)"
    by (rule completion_overruns_buffer [of 4 "''h''" 5 ?w 1 "new_Console ''> ''", THEN conjunct1, THEN mp])
       simp
  have two: "getCommandCompletions ''z'' 0 5 ?w = Inr (None, ?w\<lparr>iter := Some []\<rparr>)"
    by (rule completion_overruns_buffer [of 4 "''z''" 5 ?w 1 "new_Console ''> ''",
              THEN conjunct2, THEN conjunct1, THEN mp])
       (intro conjI c z)
  have three: "getCommandCompletions ''h'' 0 5 ?w = Inl BufferOverflow"
    by (rule completion_overruns_buffer [of 4 "''h''" 5 ?w 1 "new_Console ''> ''",
              THEN conjunct2, THEN conjunct2, THEN conjunct1, THEN mp])
       (intro conjI c h n)
  have four: "getCommandCompletions ''h'' 0 5 ?w = Inl BufferOverflow"
    by (rule completion_overruns_buffer [of 4 "''h''" 5 ?w 1 "new_Console ''> ''",
              THEN conjunct2, THEN conjunct2, THEN conjunct2, THEN mp])
       (intro conjI c s)
  have upd: "?w\<lparr>iter := Some []\<rparr> =
      \<lparr>consoles = [1 \<mapsto> new_Console ''> ''], currentConsole = Some 1, emptyHistory = [],
          iter = Some [], the_history = [], next_entry = 0\<rparr>"
    by simp
  from one two three four show ?thesis
    unfolding upd by (intro conjI)
qed

subsection \<open>The hand-over of the engine's history\<close>

text \<open>
  Claim C1. For a live console \<open>this\<close>: (1) when it is the active owner already,
  \<open>reserveConsole\<close> changes nothing; (2) when no console is active, the snapshot of
  \<open>this\<close>, or the empty sentinel when it has none, becomes the engine's history and
  \<open>this\<close> the active owner, and nothing is saved; (3) when another live console \<open>a\<close> is
  active, the engine's history is stored as the snapshot of \<open>a\<close> (in place of the one it
  had), then the snapshot of \<open>this\<close>, or the sentinel, becomes the engine's history and
  \<open>this\<close> the active owner; every other console is as it was. (4) After every call that
  returns, the active owner is \<open>this\<close> and no other console.
\<close>

theorem reserveConsole_protocol:
  "consoles w this = Some c \<Longrightarrow>
     (currentConsole w = Some this \<longrightarrow> reserveConsole this w = Inr w)
   \<and> (currentConsole w = None \<longrightarrow>
        reserveConsole this w =
          Inr (w\<lparr>the_history := (case history c of None \<Rightarrow> emptyHistory w | Some h \<Rightarrow> h),
                 currentConsole := Some this\<rparr>))
   \<and> (currentConsole w = Some a \<and> a \<noteq> this \<and> consoles w a = Some ca \<longrightarrow>
        reserveConsole this w =
          Inr (w\<lparr>consoles := (consoles w)(a \<mapsto> ca\<lparr>history := Some (the_history w)\<rparr>),
                 the_history := (case history c of None \<Rightarrow> emptyHistory w | Some h \<Rightarrow> h),
                 currentConsole := Some this\<rparr>))
   \<and> (\<forall>w'. reserveConsole this w = Inr w' \<longrightarrow> (\<forall>x. (currentConsole w' = Some x) = (x = this)))"
  by (auto simp: reserveConsole_def saveState_def history_set_history_state_def
        history_get_history_state_def split: option.splits sum.splits)

theorem reserveConsole_protocol_witness:
  "reserveConsole 2
     (\<lparr>consoles = [1 \<mapsto> new_Console ''a> '',
                    2 \<mapsto> (new_Console ''c> '')\<lparr>history := Some [(0, ''ls'')]\<rparr>],
       currentConsole = Some 1, emptyHistory = [], iter = None,
       the_history = [(1, ''pwd'')], next_entry = 2\<rparr> :: unit world)
   = Inr \<lparr>consoles = [1 \<mapsto> (new_Console ''a> '')\<lparr>history := Some [(1, ''pwd'')]\<rparr>,
                       2 \<mapsto> (new_Console ''c> '')\<lparr>history := Some [(0, ''ls'')]\<rparr>],
          currentConsole = Some 2, emptyHistory = [], iter = None,
          the_history = [(0, ''ls'')], next_entry = 2\<rparr>"
proof -
  let ?w = "\<lparr>consoles = [1 \<mapsto> new_Console ''a> '',
                    2 \<mapsto> (new_Console ''c> '')\<lparr>history := Some [(0, ''ls'')]\<rparr>],
       currentConsole = Some 1, emptyHistory = [], iter = None,
       the_history = [(1, ''pwd'')], next_entry = 2\<rparr> :: unit world"
  have c: "consoles ?w 2 = Some ((new_Console ''c> '')\<lparr>history := Some [(0, ''ls'')]\<rparr>)"
    by simp
  from reserveConsole_protocol [OF c, of 1 "new_Console ''a> ''"] show ?thesis
    by simp (auto simp: fun_eq_iff)
qed

text \<open>
  The three cases once more, for use in the proofs below, and the invariant of the serial
  numbers: it holds at the start and every operation on the process-wide state keeps it.
\<close>

lemma reserveConsole_result:
  "consoles w this = Some c \<Longrightarrow>
     (currentConsole w = Some this \<longrightarrow> reserveConsole this w = Inr w)
   \<and> (currentConsole w = None \<longrightarrow>
        reserveConsole this w =
          Inr (w\<lparr>the_history := (case history c of None \<Rightarrow> emptyHistory w | Some h \<Rightarrow> h),
                 currentConsole := Some this\<rparr>))
   \<and> (currentConsole w = Some a \<and> a \<noteq> this \<and> consoles w a = Some ca \<longrightarrow>
        reserveConsole this w =
          Inr (w\<lparr>consoles := (consoles w)(a \<mapsto> ca\<lparr>history := Some (the_history w)\<rparr>),
                 the_history := (case history c of None \<Rightarrow> emptyHistory w | Some h \<Rightarrow> h),
                 currentConsole := Some this\<rparr>))"
  by (auto simp: reserveConsole_def saveState_def history_set_history_state_def
        history_get_history_state_def split: option.splits sum.splits)

lemma entries_allocated_initial: "entries_allocated initial_world"
  by (simp add: entries_allocated_def initial_world_def)

lemma entries_allocated_construct:
  assumes "entries_allocated w"
  shows "entries_allocated (construct a g w)"
  unfolding entries_allocated_def
proof (intro conjI allI impI)
  show "\<forall>e\<in>set (the_history (construct a g w)). fst e < next_entry (construct a g w)"
    using assms by (simp add: entries_allocated_def construct_def)
  show "\<forall>e\<in>set (emptyHistory (construct a g w)). fst e < next_entry (construct a g w)"
    using assms by (simp add: entries_allocated_def construct_def)
next
  fix x c h
  assume c: "consoles (construct a g w) x = Some c" and h: "history c = Some h"
  show "\<forall>e\<in>set h. fst e < next_entry (construct a g w)"
  proof (cases "x = a")
    case True
    with c h show ?thesis
      by (auto simp: construct_def new_Console_def)
  next
    case False
    with c have "consoles w x = Some c"
      by (simp add: construct_def)
    with assms h have "\<forall>e\<in>set h. fst e < next_entry w"
      unfolding entries_allocated_def by blast
    then show ?thesis
      by (simp add: construct_def)
  qed
qed

lemma entries_allocated_destroy:
  assumes "entries_allocated w"
  shows "entries_allocated (destroy a w)"
  unfolding entries_allocated_def
proof (intro conjI allI impI)
  show "\<forall>e\<in>set (the_history (destroy a w)). fst e < next_entry (destroy a w)"
    using assms by (simp add: entries_allocated_def destroy_def)
  show "\<forall>e\<in>set (emptyHistory (destroy a w)). fst e < next_entry (destroy a w)"
    using assms by (simp add: entries_allocated_def destroy_def)
next
  fix x c h
  assume c: "consoles (destroy a w) x = Some c" and h: "history c = Some h"
  from c have "consoles w x = Some c"
    by (simp add: destroy_def split: if_splits)
  with assms h have "\<forall>e\<in>set h. fst e < next_entry w"
    unfolding entries_allocated_def by blast
  then show "\<forall>e\<in>set h. fst e < next_entry (destroy a w)"
    by (simp add: destroy_def)
qed

lemma entries_allocated_add_history:
  assumes "entries_allocated w"
  shows "entries_allocated (add_history line w)"
  unfolding entries_allocated_def
proof (intro conjI allI impI)
  from assms have "\<forall>e\<in>set (the_history w). fst e < next_entry w"
    unfolding entries_allocated_def by blast
  then show "\<forall>e\<in>set (the_history (add_history line w)). fst e < next_entry (add_history line w)"
    by (auto simp: add_history_def less_Suc_eq)
  from assms have "\<forall>e\<in>set (emptyHistory w). fst e < next_entry w"
    unfolding entries_allocated_def by blast
  then show "\<forall>e\<in>set (emptyHistory (add_history line w)). fst e < next_entry (add_history line w)"
    by (auto simp: add_history_def less_Suc_eq)
next
  fix x c h
  assume "consoles (add_history line w) x = Some c" and h: "history c = Some h"
  then have "consoles w x = Some c"
    by (simp add: add_history_def)
  with assms h have "\<forall>e\<in>set h. fst e < next_entry w"
    unfolding entries_allocated_def by blast
  then show "\<forall>e\<in>set h. fst e < next_entry (add_history line w)"
    by (auto simp: add_history_def less_Suc_eq)
qed

lemma entries_allocated_reserveConsole:
  assumes alloc: "entries_allocated w" and res: "reserveConsole this w = Inr w'"
  shows "entries_allocated w'"
proof -
  from res obtain c where c: "consoles w this = Some c"
    by (auto simp: reserveConsole_def split: option.splits)
  from alloc have eng: "\<forall>e\<in>set (the_history w). fst e < next_entry w"
    and emp: "\<forall>e\<in>set (emptyHistory w). fst e < next_entry w"
    and snap: "\<And>x cx h. consoles w x = Some cx \<Longrightarrow> history cx = Some h \<Longrightarrow>
                 \<forall>e\<in>set h. fst e < next_entry w"
    unfolding entries_allocated_def by blast+
  have view: "\<forall>e\<in>set (case history c of None \<Rightarrow> emptyHistory w | Some h \<Rightarrow> h). fst e < next_entry w"
    using emp snap [OF c] by (cases "history c") simp_all
  note facts = reserveConsole_result [OF c]
  show ?thesis
  proof (cases "currentConsole w")
    case None
    with facts res have w': "w' = w\<lparr>the_history := (case history c of None \<Rightarrow> emptyHistory w | Some h \<Rightarrow> h),
                 currentConsole := Some this\<rparr>"
      by simp
    show ?thesis
      unfolding entries_allocated_def w' using view emp snap by auto
  next
    case (Some a)
    show ?thesis
    proof (cases "a = this")
      case True
      with Some facts res have "w' = w"
        by simp
      with alloc show ?thesis by simp
    next
      case False
      with Some res obtain ca where ca: "consoles w a = Some ca"
        by (auto simp: reserveConsole_def saveState_def split: option.splits)
      from facts [of a ca] Some False ca res
      have w': "w' = w\<lparr>consoles := (consoles w)(a \<mapsto> ca\<lparr>history := Some (the_history w)\<rparr>),
                 the_history := (case history c of None \<Rightarrow> emptyHistory w | Some h \<Rightarrow> h),
                 currentConsole := Some this\<rparr>"
        by simp
      show ?thesis
        unfolding entries_allocated_def w'
      proof (intro conjI allI impI)
        fix x cx h
        assume x: "consoles (w\<lparr>consoles := (consoles w)(a \<mapsto> ca\<lparr>history := Some (the_history w)\<rparr>),
                 the_history := (case history c of None \<Rightarrow> emptyHistory w | Some h \<Rightarrow> h),
                 currentConsole := Some this\<rparr>) x = Some cx" and h: "history cx = Some h"
        show "\<forall>e\<in>set h. fst e < next_entry (w\<lparr>consoles := (consoles w)(a \<mapsto> ca\<lparr>history := Some (the_history w)\<rparr>),
                 the_history := (case history c of None \<Rightarrow> emptyHistory w | Some h \<Rightarrow> h),
                 currentConsole := Some this\<rparr>)"
        proof (cases "x = a")
          case True
          with x h have "h = the_history w"
            by auto
          with eng show ?thesis by simp
        next
          case False
          with x have "consoles w x = Some cx"
            by simp
          from snap [OF this h] show ?thesis by simp
        qed
      qed (use view emp in simp_all)
    qed
  qed
qed

text \<open>
  Claim C2. Let \<open>a\<close> and \<open>b\<close> be two live consoles, \<open>b\<close> the active owner. A line added to
  the history creates the entry \<open>(next_entry w, line)\<close>. After \<open>reserveConsole a\<close> the
  engine holds the history of \<open>a\<close> as \<open>a\<close> left it (its snapshot, or the sentinel), and
  the entry is not in it. After \<open>reserveConsole b\<close> the engine holds the history \<open>b\<close>
  had, with the entry at its end: nothing of the outgoing owner is lost. Both calls
  return.
\<close>

theorem history_isolation:
  "entries_allocated w \<Longrightarrow> consoles w a = Some ca \<Longrightarrow> consoles w b = Some cb \<Longrightarrow> a \<noteq> b \<Longrightarrow>
   currentConsole w = Some b \<Longrightarrow>
     (next_entry w, line) \<in> set (the_history (add_history line w))
     \<and> (\<exists>w2 w3. reserveConsole a (add_history line w) = Inr w2
           \<and> the_history w2 = (case history ca of None \<Rightarrow> emptyHistory w | Some h \<Rightarrow> h)
           \<and> (next_entry w, line) \<notin> set (the_history w2)
           \<and> reserveConsole b w2 = Inr w3
           \<and> the_history w3 = the_history w @ [(next_entry w, line)]
           \<and> (next_entry w, line) \<in> set (the_history w3))"
proof -
  assume alloc: "entries_allocated w" and ca: "consoles w a = Some ca" and cb: "consoles w b = Some cb"
    and ab: "a \<noteq> b" and cur: "currentConsole w = Some b"
  let ?e = "(next_entry w, line)"
  let ?w1 = "add_history line w"
  let ?view = "case history ca of None \<Rightarrow> emptyHistory w | Some h \<Rightarrow> h"
  let ?w2 = "?w1\<lparr>consoles := (consoles ?w1)(b \<mapsto> cb\<lparr>history := Some (the_history ?w1)\<rparr>),
                 the_history := ?view, currentConsole := Some a\<rparr>"
  let ?w3 = "?w2\<lparr>consoles := (consoles ?w2)(a \<mapsto> ca\<lparr>history := Some (the_history ?w2)\<rparr>),
                 the_history := the_history ?w1, currentConsole := Some b\<rparr>"
  have r2: "reserveConsole a ?w1 = Inr ?w2"
    using ca cb ab cur
    by (simp add: reserveConsole_def saveState_def history_set_history_state_def
          history_get_history_state_def add_history_def split: option.splits)
  have r3: "reserveConsole b ?w2 = Inr ?w3"
    using ca cb ab cur
    by (simp add: reserveConsole_def saveState_def history_set_history_state_def
          history_get_history_state_def add_history_def split: option.splits)
  have fresh: "?e \<notin> set ?view"
  proof (cases "history ca")
    case None
    with alloc show ?thesis
      by (auto simp: entries_allocated_def)
  next
    case (Some h)
    with alloc ca have "\<forall>e \<in> set h. fst e < next_entry w"
      by (auto simp: entries_allocated_def)
    with Some show ?thesis
      by auto
  qed
  have h3: "the_history ?w3 = the_history w @ [?e]"
    by (simp add: add_history_def)
  have h2: "the_history ?w2 = ?view"
    by simp
  from fresh h2 have "?e \<notin> set (the_history ?w2)"
    by simp
  with r2 r3 h2 h3 show ?thesis
    by (intro conjI exI [of _ ?w2] exI [of _ ?w3]) (simp_all add: add_history_def)
qed

text \<open>
  In the witness the line added for \<open>b\<close> is a line that \<open>a\<close> has in its own history:
  the entry of \<open>b\<close> is entry \<open>2\<close>, the one of \<open>a\<close> is entry \<open>0\<close>.
\<close>

theorem history_isolation_witness:
  "entries_allocated
     (\<lparr>consoles = [1 \<mapsto> (new_Console ''a> '')\<lparr>history := Some [(0, ''ls'')]\<rparr>,
                    2 \<mapsto> new_Console ''b> ''],
       currentConsole = Some 2, emptyHistory = [], iter = None,
       the_history = [(1, ''pwd'')], next_entry = 2\<rparr> :: unit world)
   \<and> (\<exists>w2 w3.
        reserveConsole 1
          (add_history ''ls''
            (\<lparr>consoles = [1 \<mapsto> (new_Console ''a> '')\<lparr>history := Some [(0, ''ls'')]\<rparr>,
                           2 \<mapsto> new_Console ''b> ''],
              currentConsole = Some 2, emptyHistory = [], iter = None,
              the_history = [(1, ''pwd'')], next_entry = 2\<rparr> :: unit world)) = Inr w2
        \<and> the_history w2 = [(0, ''ls'')]
        \<and> (2, ''ls'') \<notin> set (the_history w2)
        \<and> reserveConsole 2 w2 = Inr w3
        \<and> the_history w3 = [(1, ''pwd''), (2, ''ls'')])"
proof -
  let ?w = "\<lparr>consoles = [1 \<mapsto> (new_Console ''a> '')\<lparr>history := Some [(0, ''ls'')]\<rparr>,
                    2 \<mapsto> new_Console ''b> ''],
       currentConsole = Some 2, emptyHistory = [], iter = None,
       the_history = [(1, ''pwd'')], next_entry = 2\<rparr> :: unit world"
  have alloc: "entries_allocated ?w"
    by (auto simp: entries_allocated_def new_Console_def split: if_splits)
  have a: "consoles ?w 1 = Some ((new_Console ''a> '')\<lparr>history := Some [(0, ''ls'')]\<rparr>)"
    and b: "consoles ?w 2 = Some (new_Console ''b> '')"
    and ab: "(1::nat) \<noteq> 2" and cur: "currentConsole ?w = Some 2"
    by simp_all
  from history_isolation [OF alloc a b ab cur, of "''ls''"]
  obtain w2 w3 where "reserveConsole 1 (add_history ''ls'' ?w) = Inr w2"
    "the_history w2 = [(0, ''ls'')]" "(2, ''ls'') \<notin> set (the_history w2)"
    "reserveConsole 2 w2 = Inr w3" "the_history w3 = [(1, ''pwd''), (2, ''ls'')]"
    by auto
  with alloc show ?thesis
    by (intro conjI exI [of _ w2] exI [of _ w3])
qed

section \<open>Further properties\<close>

subsection \<open>Blanks around a line\<close>

lemma split_words_leading: "split_words [] (replicate n (CHR '' '') @ xs) = split_words [] xs"
  by (induction n) (simp_all add: isspace_def)

lemma split_words_spaces: "split_words cur (replicate m (CHR '' '')) = split_words cur []"
  by (induction m arbitrary: cur) (simp_all add: isspace_def)

lemma split_words_trailing: "split_words cur (xs @ replicate m (CHR '' '')) = split_words cur xs"
proof (induction xs arbitrary: cur)
  case Nil
  then show ?case by (simp add: split_words_spaces)
next
  case (Cons x xs)
  then show ?case by simp
qed

text \<open>
  Blanks before and after a line change neither its words nor what \<open>executeCommand\<close>
  does with it.
\<close>

theorem tokenize_outer_spaces:
  "tokenize (replicate n (CHR '' '') @ line @ replicate m (CHR '' '')) = tokenize line
   \<and> tokenize ''  foo bar  '' = tokenize ''foo bar''
   \<and> executeCommand fuel fs this (replicate n (CHR '' '') @ line @ replicate m (CHR '' '')) s
       = executeCommand fuel fs this line s"
proof -
  have a: "tokenize (replicate n (CHR '' '') @ line @ replicate m (CHR '' '')) = tokenize line"
    by (simp add: tokenize_def split_words_leading split_words_trailing)
  have b: "tokenize ''  foo bar  '' = tokenize ''foo bar''"
    by (simp add: tokenize_def isspace_def)
  from a b show ?thesis
    by (simp add: executeCommand.simps)
qed

subsection \<open>The built-in run\<close>

text \<open>\<^verbatim>\<open>run\<close> without a file name prints its usage and returns \<open>Error\<close>.\<close>

theorem run_without_argument:
  "executeCommand fuel fs (new_Console g :: 'u Console) ''run'' s =
     Return Error (s\<lparr>cout := cout s @ ''Usage: run script_filename'' @ [CHR 0x0A]\<rparr>)"
proof -
  have "tokenize ''run'' = [''run'']"
    by (simp add: tokenize_def isspace_def)
  moreover have "map_of (commands (new_Console g :: 'u Console)) ''run'' = Some RunLambda"
    by (simp add: new_Console_def)
  ultimately show ?thesis
    by (simp add: executeCommand.simps static_cast_int_def to_unsigned_def Error_def Let_def)
qed

text \<open>
  A script that runs itself: whatever number of nested \<^verbatim>\<open>run\<close> commands the model may
  follow, it is used up. In the program the calls nest without end.
\<close>

lemma self_running_script:
  assumes fs: "fs ''loop'' = Some ''run loop''"
  shows "executeFile fuel fs (new_Console g :: 'u Console) ''loop'' s = Diverge"
proof (induction fuel arbitrary: s)
  case 0
  have t: "tokenize ''run loop'' = [''run'', ''loop'']"
    by (simp add: tokenize_def isspace_def)
  have m: "map_of (commands (new_Console g :: 'u Console)) ''run'' = Some RunLambda"
    by (simp add: new_Console_def)
  show ?case
    by (simp add: executeFile.simps fs getlines_def string_at_def executeCommand.simps t m Let_def)
next
  case (Suc fuel)
  have t: "tokenize ''run loop'' = [''run'', ''loop'']"
    by (simp add: tokenize_def isspace_def)
  have m: "map_of (commands (new_Console g :: 'u Console)) ''run'' = Some RunLambda"
    by (simp add: new_Console_def)
  show ?case
    by (simp add: executeFile.simps [of "Suc fuel"] fs getlines_def string_at_def
          executeCommand.simps [of "Suc fuel"] t m Let_def Suc.IH)
qed

text \<open>The script \<^verbatim>\<open>loop\<close>, whose one line is \<^verbatim>\<open>run loop\<close>, never returns.\<close>

theorem script_running_itself_diverges:
  "executeFile fuel [''loop'' \<mapsto> ''run loop''] (new_Console g) ''loop'' s = Diverge
   \<and> executeCommand fuel [''loop'' \<mapsto> ''run loop''] (new_Console g) ''run loop'' s = Diverge"
proof -
  have t: "tokenize ''run loop'' = [''run'', ''loop'']"
    by (simp add: tokenize_def isspace_def)
  have m: "map_of (commands (new_Console g :: 'a Console)) ''run'' = Some RunLambda"
    by (simp add: new_Console_def)
  have f: "[''loop'' \<mapsto> ''run loop''] ''loop'' = Some ''run loop''"
    by simp
  note d = self_running_script [of "[''loop'' \<mapsto> ''run loop'']", OF f]
  show ?thesis
    by (simp add: d executeCommand.simps t m Let_def del: fun_upd_apply)
qed

subsection \<open>Handler results up to the largest int\<close>

text \<open>
  A handler result of at most \<open>2147483647\<close> is returned as it is, and is not negative:
  within this range a handler cannot produce \<open>Quit\<close>.
\<close>

theorem handler_result_in_range:
  "tokenize line = name # args \<Longrightarrow> name \<noteq> ''quit'' \<Longrightarrow> name \<noteq> ''exit'' \<Longrightarrow>
   map_of (commands this) name = Some (UserFunction h) \<Longrightarrow>
   fst (h (name # args) (user s)) \<le> 2147483647 \<Longrightarrow>
     executeCommand fuel fs this line s =
       Return (uint (fst (h (name # args) (user s)))) (s\<lparr>user := snd (h (name # args) (user s))\<rparr>)
     \<and> 0 \<le> uint (fst (h (name # args) (user s)))"
proof -
  assume t: "tokenize line = name # args" and q: "name \<noteq> ''quit''" "name \<noteq> ''exit''"
    and m: "map_of (commands this) name = Some (UserFunction h)"
    and r: "fst (h (name # args) (user s)) \<le> 2147483647"
  let ?r = "fst (h (name # args) (user s))"
  from r have "uint ?r \<le> uint (2147483647 :: 32 word)"
    by (simp only: word_le_def)
  then have small: "uint ?r < 2 ^ 31"
    by simp
  have "sint ?r = signed_take_bit 31 (uint ?r)"
    by (simp add: sint_uint)
  also have "\<dots> = uint ?r"
  proof (rule signed_take_bit_int_eq_self)
    have "- (2 ^ 31) \<le> (0 :: int)"
      by simp
    also have "0 \<le> uint ?r"
      by simp
    finally show "- (2 ^ 31) \<le> uint ?r" .
    show "uint ?r < 2 ^ 31"
      by (rule small)
  qed
  finally have "static_cast_int ?r = uint ?r"
    by (simp add: static_cast_int_def)
  with t q m show ?thesis
    by (auto simp: executeCommand.simps split: prod.splits)
qed

theorem handler_result_in_range_witness:
  "executeCommand 0 Map.empty
     (registerCommand ''foo'' (UserFunction (\<lambda>toks u. (2147483647, u))) (new_Console ''> ''))
     ''foo'' \<lparr>cout = [], user = (), subscripts = []\<rparr>
   = Return 2147483647 \<lparr>cout = [], user = (), subscripts = []\<rparr>"
proof -
  have t: "tokenize ''foo'' = ''foo'' # []"
    by (simp add: tokenize_def isspace_def)
  have m: "map_of (commands (registerCommand ''foo'' (UserFunction (\<lambda>toks u. (2147483647, u)))
             (new_Console ''> '' :: unit Console))) ''foo'' = Some (UserFunction (\<lambda>toks u. (2147483647, u)))"
    by (simp add: registerCommand_def map_of_assign)
  have r: "fst ((\<lambda>toks u. (2147483647 :: 32 word, u)) [''foo''] (user \<lparr>cout = [], user = (), subscripts = []\<rparr>))
             \<le> 2147483647"
    by simp
  from handler_result_in_range [OF t _ _ m r, of 0 Map.empty] show ?thesis
    by simp
qed

subsection \<open>A console destroyed while it is the active owner\<close>

text \<open>
  The destructor leaves \<^verbatim>\<open>currentConsole_\<close> pointing to the destroyed console; the next
  \<open>reserveConsole\<close> of another console calls \<open>saveState\<close> through that pointer.
\<close>

theorem reserve_after_destroying_the_owner:
  "currentConsole w = Some a \<Longrightarrow> a \<noteq> this \<Longrightarrow> consoles w this = Some c \<Longrightarrow>
     currentConsole (destroy a w) = Some a
     \<and> reserveConsole this (destroy a w) = Inl DanglingConsole"
  by (simp add: destroy_def reserveConsole_def saveState_def)

theorem reserve_after_destroying_the_owner_witness:
  "reserveConsole 2
     (destroy 1
       (\<lparr>consoles = [1 \<mapsto> new_Console ''a> '', 2 \<mapsto> new_Console ''b> ''],
         currentConsole = Some 1, emptyHistory = [], iter = None,
         the_history = [], next_entry = 0\<rparr> :: unit world))
   = Inl DanglingConsole"
proof -
  let ?w = "\<lparr>consoles = [1 \<mapsto> new_Console ''a> '', 2 \<mapsto> new_Console ''b> ''],
         currentConsole = Some 1, emptyHistory = [], iter = None,
         the_history = [], next_entry = 0\<rparr> :: unit world"
  have "currentConsole ?w = Some 1" "(1::nat) \<noteq> 2" "consoles ?w 2 = Some (new_Console ''b> '')"
    by simp_all
  from reserve_after_destroying_the_owner [OF this] show ?thesis
    by simp
qed

subsection \<open>readLine at the end of the input\<close>

text \<open>
  When the engine has no line to give, \<open>readLine\<close> of a live console (no other console
  being active) makes it the active owner, writes a newline and returns \<open>Quit\<close>.
\<close>

theorem readLine_end_of_input:
  "consoles w this = Some c \<Longrightarrow> currentConsole w = None \<or> currentConsole w = Some this \<Longrightarrow>
     \<exists>w'. readLine this None fuel fs w s = Inr (Return Quit (s\<lparr>cout := cout s @ [CHR 0x0A]\<rparr>), w')
          \<and> currentConsole w' = Some this \<and> consoles w' = consoles w"
  by (auto simp: readLine_def reserveConsole_def history_set_history_state_def split: option.splits)

theorem readLine_end_of_input_witness:
  "readLine 1 None 0 Map.empty
     (\<lparr>consoles = [1 \<mapsto> new_Console ''> ''], currentConsole = None, emptyHistory = [],
       iter = None, the_history = [], next_entry = 0\<rparr> :: unit world)
     \<lparr>cout = [], user = (), subscripts = []\<rparr>
   = Inr (Return (- 1) \<lparr>cout = [CHR 0x0A], user = (), subscripts = []\<rparr>,
          \<lparr>consoles = [1 \<mapsto> new_Console ''> ''], currentConsole = Some 1, emptyHistory = [],
           iter = None, the_history = [], next_entry = 0\<rparr>)"
proof -
  let ?w = "\<lparr>consoles = [1 \<mapsto> new_Console ''> ''], currentConsole = None, emptyHistory = [],
       iter = None, the_history = [], next_entry = 0\<rparr> :: unit world"
  have c: "consoles ?w 1 = Some (new_Console ''> '')"
    and n: "currentConsole ?w = None \<or> currentConsole ?w = Some 1"
    by simp_all
  from readLine_end_of_input [OF c n, of 0 Map.empty "\<lparr>cout = [], user = (), subscripts = []\<rparr>"]
  obtain w' where r: "readLine 1 None 0 Map.empty ?w \<lparr>cout = [], user = (), subscripts = []\<rparr>
      = Inr (Return Quit (\<lparr>cout = [], user = (), subscripts = []\<rparr>\<lparr>cout := [] @ [CHR 0x0A]\<rparr>), w')"
    by auto
  have "readLine 1 None 0 Map.empty ?w \<lparr>cout = [], user = (), subscripts = []\<rparr>
      = Inr (Return (- 1) \<lparr>cout = [CHR 0x0A], user = (), subscripts = []\<rparr>,
          \<lparr>consoles = [1 \<mapsto> new_Console ''> ''], currentConsole = Some 1, emptyHistory = [],
           iter = None, the_history = [], next_entry = 0\<rparr>)"
    by (simp add: readLine_def reserveConsole_def history_set_history_state_def new_Console_def Quit_def)
  with r show ?thesis
    by simp
qed

end
